theory Spec2Isabelle
  imports Complex_Main "HOL-Library.Sublist"
begin

section \<open>Python values and strings\<close>

text \<open>
  A Python \<open>str\<close> is a sequence of code points. The model uses HOL strings, whose
  characters are the code points 0 to 255 (Latin-1); \<open>str.lower\<close>, \<open>str.isspace\<close>,
  \<open>str.strip\<close> and \<open>str.split\<close> are modelled as Python defines them on that range.
\<close>

definition py_isspace :: "char \<Rightarrow> bool" where
  "py_isspace c =
     (let n = (of_char c :: nat)
      in (9 \<le> n \<and> n \<le> 13) \<or> (28 \<le> n \<and> n \<le> 32) \<or> n = 133 \<or> n = 160)"

text \<open>The characters that \<open>lower\<close> changes: A to Z, and the Latin-1 capitals.\<close>

definition is_upper :: "char \<Rightarrow> bool" where
  "is_upper c =
     (let n = (of_char c :: nat)
      in (65 \<le> n \<and> n \<le> 90) \<or> (192 \<le> n \<and> n \<le> 214) \<or> (216 \<le> n \<and> n \<le> 222))"

definition py_lower_char :: "char \<Rightarrow> char" where
  "py_lower_char c = (if is_upper c then char_of (of_char c + 32 :: nat) else c)"

text \<open>\<open>s.lower()\<close>\<close>

definition py_lower :: "string \<Rightarrow> string" where
  "py_lower s = map py_lower_char s"

text \<open>\<open>s.strip()\<close>: leading and trailing whitespace removed.\<close>

definition py_strip :: "string \<Rightarrow> string" where
  "py_strip s = rev (dropWhile py_isspace (rev (dropWhile py_isspace s)))"

text \<open>\<open>s.split()\<close> with no separator: the maximal runs of non-whitespace characters.\<close>

function py_split :: "string \<Rightarrow> string list" where
  "py_split s =
     (case dropWhile py_isspace s of
        [] \<Rightarrow> []
      | c # cs \<Rightarrow> (c # takeWhile (\<lambda>x. \<not> py_isspace x) cs)
                  # py_split (dropWhile (\<lambda>x. \<not> py_isspace x) cs))"
  by pat_completeness auto
termination
proof (relation "measure length", goal_cases)
  case 1
  show ?case by simp
next
  case (2 s c cs)
  have "length (dropWhile (\<lambda>x. \<not> py_isspace x) cs) \<le> length cs"
    by (rule length_dropWhile_le)
  moreover have "length (c # cs) \<le> length s"
    using length_dropWhile_le [of py_isspace s] 2 by simp
  ultimately show ?case by simp
qed

declare py_split.simps [simp del]

text \<open>\<open>sep.join(ws)\<close>\<close>

fun py_join :: "string \<Rightarrow> string list \<Rightarrow> string" where
  "py_join sep [] = []"
| "py_join sep [w] = w"
| "py_join sep (w # v # ws) = w @ sep @ py_join sep (v # ws)"

text \<open>\<open>q in t\<close> on strings: \<open>q\<close> occurs in \<open>t\<close> as a contiguous substring.\<close>

fun py_in :: "string \<Rightarrow> string \<Rightarrow> bool" where
  "py_in q [] = (q = [])"
| "py_in q (c # cs) = (prefix q (c # cs) \<or> py_in q cs)"

text \<open>\<open>str(i)\<close> for an integer: its decimal digits, with a minus sign when negative.\<close>

fun str_nat :: "nat \<Rightarrow> string" where
  "str_nat n = (if n < 10 then [char_of (48 + n)] else str_nat (n div 10) @ [char_of (48 + n mod 10)])"

declare str_nat.simps [simp del]

definition str_int :: "int \<Rightarrow> string" where
  "str_int i = (if i < 0 then CHR ''-'' # str_nat (nat (- i)) else str_nat (nat i))"

text \<open>
  The value of a cell of a data frame read from a CSV file: a string, an integer, a
  boolean, a float, or missing. A float other than NaN is identified with the text that
  \<open>str\<close> gives for it; NaN is the marker pandas uses for an empty cell. \<open>CNone\<close> is
  Python's \<open>None\<close>.
\<close>

datatype cell = CStr string | CInt int | CBool bool | CFloat string | CNaN | CNone

text \<open>
  An argument of type \<open>Any\<close>: a cell value, or some other object (a list, a dict, ...),
  which is neither \<open>None\<close> nor an instance of \<open>str\<close>, \<open>int\<close> or \<open>float\<close>.
\<close>

datatype pyval = Val cell | Obj

text \<open>\<open>str(v)\<close>\<close>

fun py_str :: "cell \<Rightarrow> string" where
  "py_str (CStr s) = s"
| "py_str (CInt i) = str_int i"
| "py_str (CBool b) = (if b then ''True'' else ''False'')"
| "py_str (CFloat r) = r"
| "py_str CNaN = ''nan''"
| "py_str CNone = ''None''"

text \<open>\<open>pd.notna(v)\<close>\<close>

fun notna :: "cell \<Rightarrow> bool" where
  "notna CNaN = False"
| "notna CNone = False"
| "notna _ = True"

section \<open>The analyzer: \<open>SEOScorecardAnalyzer\<close>\<close>

text \<open>
  \<open>clean_text\<close>: \<open>None\<close> and anything that is not a \<open>str\<close>, \<open>int\<close> or \<open>float\<close> give
  the empty string (\<open>bool\<close> is a subclass of \<open>int\<close>); otherwise
  \<open>' '.join(str(text).strip().lower().split())\<close>.
\<close>

fun clean_text :: "pyval \<Rightarrow> string" where
  "clean_text Obj = []"
| "clean_text (Val CNone) = []"
| "clean_text (Val v) = py_join '' '' (py_split (py_lower (py_strip (py_str v))))"

text \<open>A row of the crawl export (a \<open>pd.Series\<close>): column name to cell.\<close>

type_synonym row = "string \<rightharpoonup> cell"

text \<open>The scraped content: URL to extracted text, \<open>None\<close> where extraction failed.\<close>

type_synonym content_map = "string \<rightharpoonup> string option"

definition elements_to_check :: "(string \<times> string) list" where
  "elements_to_check =
     [(''Title'', ''Title 1''), (''Meta Description'', ''Meta Description 1''), (''H1'', ''H1-1'')]"

definition h2_columns :: "string list" where
  "h2_columns = map (\<lambda>i. ''H2-'' @ str_nat i) [1..<6]"

text \<open>
  The loop over \<open>elements_to_check\<close>: an element whose column is in the row gets
  \<open>query in text if text else False\<close>; one whose column is not gets no entry.
\<close>

fun check_elements :: "string \<Rightarrow> row \<Rightarrow> (string \<times> string) list \<Rightarrow> (string \<rightharpoonup> bool) \<Rightarrow> (string \<rightharpoonup> bool)" where
  "check_elements query row [] results = results"
| "check_elements query row ((element_name, column) # es) results =
     (case row column of
        None \<Rightarrow> check_elements query row es results
      | Some v \<Rightarrow>
          (let text = clean_text (Val v)
           in check_elements query row es
                (results(element_name \<mapsto> (if text \<noteq> [] then py_in query text else False)))))"

text \<open>The loop that collects \<open>h2_texts\<close>.\<close>

fun collect_h2 :: "row \<Rightarrow> string list \<Rightarrow> string list \<Rightarrow> string list" where
  "collect_h2 row [] h2_texts = h2_texts"
| "collect_h2 row (h2_col # cols) h2_texts =
     (case row h2_col of
        None \<Rightarrow> collect_h2 row cols h2_texts
      | Some v \<Rightarrow>
          (if notna v then collect_h2 row cols (h2_texts @ [clean_text (Val v)])
           else collect_h2 row cols h2_texts))"

text \<open>
  The content decision. The first branch is taken when \<open>url\<close>, \<open>scraped_content\<close>,
  \<open>url in scraped_content\<close> and \<open>scraped_content[url]\<close> are all true; the keys of
  \<open>scraped_content\<close> are strings, so only a non-empty string address can be among them.
\<close>

definition live_content :: "row \<Rightarrow> content_map \<Rightarrow> string option" where
  "live_content row scraped_content =
     (case row ''Address'' of
        Some (CStr url) \<Rightarrow>
          (if url \<noteq> [] then
             (case scraped_content url of
                Some (Some content) \<Rightarrow> (if content \<noteq> [] then Some content else None)
              | _ \<Rightarrow> None)
           else None)
      | _ \<Rightarrow> None)"

definition check_content :: "string \<Rightarrow> row \<Rightarrow> content_map \<Rightarrow> bool" where
  "check_content query row scraped_content =
     (case live_content row scraped_content of
        Some content \<Rightarrow>
          (let clean_content = clean_text (Val (CStr content))
           in if clean_content \<noteq> [] then py_in query clean_content else False)
      | None \<Rightarrow>
          (case row ''Post 1'' of
             Some v \<Rightarrow>
               (if notna v then py_in query (clean_text (Val (CStr (py_str v)))) else False)
           | None \<Rightarrow> False))"

definition analyze_query_in_elements :: "string \<Rightarrow> row \<Rightarrow> content_map \<Rightarrow> (string \<rightharpoonup> bool)" where
  "analyze_query_in_elements query0 row scraped_content =
     (let query = clean_text (Val (CStr query0))
      in if query = [] then Map.empty
         else
           (let results = check_elements query row elements_to_check Map.empty;
                h2_texts = collect_h2 row h2_columns [];
                results = results(''H2s'' \<mapsto> list_ex (\<lambda>h2_text. py_in query h2_text)
                                              (filter (\<lambda>h2_text. h2_text \<noteq> []) h2_texts))
            in results(''Content'' \<mapsto> check_content query row scraped_content)))"

section \<open>The scorecard: \<open>generate_scorecard\<close>\<close>

text \<open>
  A row of the analytics export, with the four required columns: \<open>Query\<close> and
  \<open>Landing Page\<close> are strings, \<open>Clicks\<close> and \<open>Impressions\<close> integers.
\<close>

record gsc_row =
  Query :: string
  Landing_Page :: string
  Clicks :: int
  Impressions :: int

text \<open>A row of the result: \<open>{'Query': query, 'URL': url, **element_checks}\<close>.\<close>

record result_row =
  r_Query :: string
  r_URL :: string
  r_checks :: "string \<rightharpoonup> bool"

datatype error = KeyError

text \<open>
  \<open>df.nlargest(n, ['Clicks', 'Impressions'])\<close>: the first \<open>n\<close> rows of the frame ordered
  by clicks, then impressions, both descending; rows with equal keys stay in the order of
  the frame (\<open>keep='first'\<close>).
\<close>

definition ranks_above :: "gsc_row \<Rightarrow> gsc_row \<Rightarrow> bool" where
  "ranks_above a b =
     (Clicks b < Clicks a \<or> (Clicks a = Clicks b \<and> Impressions b < Impressions a))"

fun insert_desc :: "gsc_row \<Rightarrow> gsc_row list \<Rightarrow> gsc_row list" where
  "insert_desc x [] = [x]"
| "insert_desc x (y # ys) = (if ranks_above y x then y # insert_desc x ys else x # y # ys)"

definition sort_desc :: "gsc_row list \<Rightarrow> gsc_row list" where
  "sort_desc df = foldr insert_desc df []"

definition nlargest :: "nat \<Rightarrow> gsc_row list \<Rightarrow> gsc_row list" where
  "nlargest n df = take n (sort_desc df)"

text \<open>\<open>Series.unique()\<close>: the distinct values, in order of first appearance.\<close>

function unique :: "'a list \<Rightarrow> 'a list" where
  "unique [] = []"
| "unique (x # xs) = x # unique (filter (\<lambda>y. y \<noteq> x) xs)"
  by pat_completeness auto
termination
  by (relation "measure length") (auto simp: less_Suc_eq_le)

definition top_queries :: "gsc_row list \<Rightarrow> string list" where
  "top_queries gsc_df = unique (map Query (nlargest 10 gsc_df))"

text \<open>
  A frame is a list of rows; it has a column when every row has it (the rows of a frame
  share their columns). \<open>sf_df['Address']\<close> raises \<open>KeyError\<close> on a frame without the
  column; \<open>sf_df[sf_df['Address'] == url]\<close> keeps the rows whose address is the string
  \<open>url\<close>.
\<close>

definition has_column :: "row list \<Rightarrow> string \<Rightarrow> bool" where
  "has_column df c = list_all (\<lambda>r. r c \<noteq> None) df"

definition matching_rows :: "row list \<Rightarrow> string \<Rightarrow> error + row list" where
  "matching_rows sf_df url =
     (if has_column sf_df ''Address''
      then Inr (filter (\<lambda>r. r ''Address'' = Some (CStr url)) sf_df)
      else Inl KeyError)"

text \<open>The inner loop, over the URLs of one query; \<open>results\<close> is the list appended to.\<close>

fun url_loop :: "row list \<Rightarrow> content_map \<Rightarrow> string \<Rightarrow> string list \<Rightarrow> result_row list
    \<Rightarrow> error + result_row list" where
  "url_loop sf_df scraped_content q [] results = Inr results"
| "url_loop sf_df scraped_content q (url # urls) results =
     (case matching_rows sf_df url of
        Inl e \<Rightarrow> Inl e
      | Inr [] \<Rightarrow> url_loop sf_df scraped_content q urls results
      | Inr (row # _) \<Rightarrow>
          url_loop sf_df scraped_content q urls
            (results @ [\<lparr>r_Query = q, r_URL = url,
                         r_checks = analyze_query_in_elements q row scraped_content\<rparr>]))"

text \<open>\<open>gsc_df[gsc_df['Query'] == query]['Landing Page'].unique()\<close>\<close>

definition query_urls :: "gsc_row list \<Rightarrow> string \<Rightarrow> string list" where
  "query_urls gsc_df q = unique (map Landing_Page (filter (\<lambda>g. Query g = q) gsc_df))"

text \<open>The outer loop, over the top queries.\<close>

fun query_loop :: "gsc_row list \<Rightarrow> row list \<Rightarrow> content_map \<Rightarrow> string list \<Rightarrow> result_row list
    \<Rightarrow> error + result_row list" where
  "query_loop gsc_df sf_df scraped_content [] results = Inr results"
| "query_loop gsc_df sf_df scraped_content (q # qs) results =
     (case url_loop sf_df scraped_content q (query_urls gsc_df q) results of
        Inl e \<Rightarrow> Inl e
      | Inr results' \<Rightarrow> query_loop gsc_df sf_df scraped_content qs results')"

section \<open>The content extractor: \<open>ContentExtractor\<close>\<close>

text \<open>
  The network and the libraries are parameters of the model. A call either raises or
  returns: \<open>http_get url attempt\<close> is \<open>requests.get\<close> followed by \<open>raise_for_status\<close>
  at the given attempt (a network error, a timeout and a non-success status all raise) and
  returns the text of the response; \<open>trafilatura_extract\<close> is \<open>trafilatura.extract\<close>;
  \<open>valid_url\<close> is the test of \<open>is_valid_url\<close>, that \<open>urlparse\<close> finds a scheme and a
  network location.
\<close>

datatype 'a outcome = Raises | Returns 'a

record extractor =
  max_retries :: int
  valid_url :: "string \<Rightarrow> bool"
  http_get :: "string \<Rightarrow> nat \<Rightarrow> string outcome"
  trafilatura_extract :: "string \<Rightarrow> string option outcome"

text \<open>
  The retry loop of \<open>extract_from_url\<close> over the attempts that remain: an exception at
  the last attempt gives \<open>None\<close>, an earlier one goes to the next attempt; a response
  gives \<open>content.strip() if content else None\<close> at once.
\<close>

fun attempts :: "extractor \<Rightarrow> string \<Rightarrow> nat list \<Rightarrow> string option" where
  "attempts ex url [] = None"
| "attempts ex url (attempt # rest) =
     (case http_get ex url attempt of
        Raises \<Rightarrow> (if int attempt = max_retries ex then None else attempts ex url rest)
      | Returns response_text \<Rightarrow>
          (case trafilatura_extract ex response_text of
             Raises \<Rightarrow> (if int attempt = max_retries ex then None else attempts ex url rest)
           | Returns None \<Rightarrow> None
           | Returns (Some content) \<Rightarrow> (if content \<noteq> [] then Some (py_strip content) else None)))"

definition extract_from_url :: "extractor \<Rightarrow> string \<Rightarrow> string option" where
  "extract_from_url ex url =
     (if \<not> valid_url ex url then None
      else attempts ex url [0..<nat (max_retries ex + 1)])"

text \<open>\<open>{url: self.extract_from_url(url) for url in urls}\<close>\<close>

definition batch_extract :: "extractor \<Rightarrow> string list \<Rightarrow> content_map" where
  "batch_extract ex urls = foldl (\<lambda>m url. m(url \<mapsto> extract_from_url ex url)) Map.empty urls"

text \<open>
  The scraped content of a run: empty unless scraping is enabled and an extractor is
  there; then the landing pages of the top queries, each extracted once.
\<close>

definition scrape :: "extractor option \<Rightarrow> gsc_row list \<Rightarrow> bool \<Rightarrow> content_map" where
  "scrape content_extractor gsc_df scrape_urls =
     (case content_extractor of
        Some ex \<Rightarrow>
          (if scrape_urls
           then batch_extract ex
                  (unique (map Landing_Page
                     (filter (\<lambda>g. Query g \<in> set (top_queries gsc_df)) gsc_df)))
           else Map.empty)
      | None \<Rightarrow> Map.empty)"

definition generate_scorecard :: "extractor option \<Rightarrow> gsc_row list \<Rightarrow> row list \<Rightarrow> bool
    \<Rightarrow> error + result_row list" where
  "generate_scorecard content_extractor gsc_df sf_df scrape_urls =
     (if gsc_df = [] \<or> sf_df = [] then Inr []
      else query_loop gsc_df sf_df (scrape content_extractor gsc_df scrape_urls)
             (top_queries gsc_df) [])"

section \<open>The metrics: \<open>calculate_metrics\<close>\<close>

text \<open>
  The metrics are a dictionary of numbers. Python computes the coverages in floating
  point; the model computes them exactly, in the rationals.
\<close>

type_synonym metrics = "string \<rightharpoonup> rat"

definition elements :: "string list" where
  "elements = [''Title'', ''Meta Description'', ''H1'', ''H2s'', ''Content'']"

definition coverage_key :: "string \<Rightarrow> string" where
  "coverage_key element = py_lower element @ ''_coverage''"

text \<open>
  The frame of the results has a column for an element when some row has an entry for
  it; the rows without one hold NaN there, which \<open>mean\<close> skips.
\<close>

definition in_results :: "result_row list \<Rightarrow> string \<Rightarrow> bool" where
  "in_results results_df element = list_ex (\<lambda>r. r_checks r element \<noteq> None) results_df"

definition column_values :: "result_row list \<Rightarrow> string \<Rightarrow> bool list" where
  "column_values results_df element =
     concat (map (\<lambda>r. case r_checks r element of None \<Rightarrow> [] | Some b \<Rightarrow> [b]) results_df)"

definition column_mean :: "result_row list \<Rightarrow> string \<Rightarrow> rat" where
  "column_mean results_df element =
     of_nat (length (filter (\<lambda>b. b) (column_values results_df element)))
       / of_nat (length (column_values results_df element))"

fun coverage_loop :: "result_row list \<Rightarrow> string list \<Rightarrow> metrics \<Rightarrow> metrics" where
  "coverage_loop results_df [] m = m"
| "coverage_loop results_df (element # es) m =
     (if in_results results_df element
      then coverage_loop results_df es
             (m(coverage_key element \<mapsto> column_mean results_df element * 100))
      else coverage_loop results_df es m)"

definition get_default :: "metrics \<Rightarrow> string \<Rightarrow> rat \<Rightarrow> rat" where
  "get_default m k d = (case m k of Some v \<Rightarrow> v | None \<Rightarrow> d)"

definition calculate_metrics :: "result_row list \<Rightarrow> metrics" where
  "calculate_metrics results_df =
     (if results_df = [] then Map.empty
      else
        (let m = [''total_queries'' \<mapsto> of_nat (length (unique (map r_Query results_df))),
                  ''total_urls'' \<mapsto> of_nat (length (unique (map r_URL results_df)))];
             m = coverage_loop results_df elements m;
             coverage_scores = map (\<lambda>el. get_default m (coverage_key el) 0) elements
         in m(''overall_score'' \<mapsto>
               (if coverage_scores \<noteq> [] then sum_list coverage_scores / of_nat (length coverage_scores)
                else 0))))"

section \<open>The normalizer as the specification words it\<close>

text \<open>
  Trim leading and trailing whitespace, lower-case, collapse each run of whitespace to a
  single space.
\<close>

definition trim :: "string \<Rightarrow> string" where
  "trim s = rev (dropWhile py_isspace (rev (dropWhile py_isspace s)))"

function collapse_ws :: "string \<Rightarrow> string" where
  "collapse_ws [] = []"
| "collapse_ws (c # cs) =
     (if py_isspace c then CHR '' '' # collapse_ws (dropWhile py_isspace cs)
      else c # collapse_ws cs)"
  by pat_completeness auto
termination
  by (relation "measure length") (auto simp: less_Suc_eq_le length_dropWhile_le)

definition spec_normalize :: "string \<Rightarrow> string" where
  "spec_normalize s = collapse_ws (py_lower (trim s))"

text \<open>A list of words as \<open>split\<close> gives them: none empty, none with whitespace.\<close>

definition words_ok :: "string list \<Rightarrow> bool" where
  "words_ok ws = (\<forall>w\<in>set ws. w \<noteq> [] \<and> (\<forall>c\<in>set w. \<not> py_isspace c))"

text \<open>A string with no whitespace at either end.\<close>

definition trimmed :: "string \<Rightarrow> bool" where
  "trimmed x = (x = [] \<or> (\<not> py_isspace (hd x) \<and> \<not> py_isspace (last x)))"

section \<open>The join as the specification words it\<close>

text \<open>
  The landing pages of a query are those of its rows in the analytics export, in input
  order and deduplicated: each page stands where it is seen first. \<open>first_pos x xs\<close> is the
  position at which \<open>x\<close> is first seen in \<open>xs\<close>.
\<close>

fun first_seen :: "'a list \<Rightarrow> 'a list" where
  "first_seen [] = []"
| "first_seen (x # xs) = x # removeAll x (first_seen xs)"

definition first_pos :: "'a \<Rightarrow> 'a list \<Rightarrow> nat" where
  "first_pos x xs = length (takeWhile (\<lambda>y. y \<noteq> x) xs)"

definition landing_pages :: "gsc_row list \<Rightarrow> string \<Rightarrow> string list" where
  "landing_pages gsc_df q = first_seen (map Landing_Page (filter (\<lambda>g. Query g = q) gsc_df))"

text \<open>
  The page of a URL is the first row of the crawl export whose address equals the URL; a
  query and one of its landing pages give one row of the result when the URL has a page,
  and none when it has not; the result lists the queries in the order given and, under
  each, its landing pages in input order.
\<close>

definition first_page :: "row list \<Rightarrow> string \<Rightarrow> row option" where
  "first_page sf_df url = find (\<lambda>r. r ''Address'' = Some (CStr url)) sf_df"

definition rows_of_pair :: "row list \<Rightarrow> content_map \<Rightarrow> string \<Rightarrow> string \<Rightarrow> result_row list" where
  "rows_of_pair sf_df scraped_content q url =
     (case first_page sf_df url of
        None \<Rightarrow> []
      | Some row \<Rightarrow>
          [\<lparr>r_Query = q, r_URL = url,
            r_checks = analyze_query_in_elements q row scraped_content\<rparr>])"

definition scorecard_rows :: "row list \<Rightarrow> content_map \<Rightarrow> gsc_row list \<Rightarrow> string list \<Rightarrow> result_row list" where
  "scorecard_rows sf_df scraped_content gsc_df queries =
     concat (map (\<lambda>q. concat (map (rows_of_pair sf_df scraped_content q) (landing_pages gsc_df q)))
               queries)"

text \<open>The pairs of a query and a landing page of it that has a page in the crawl export.\<close>

definition matched_pairs :: "row list \<Rightarrow> gsc_row list \<Rightarrow> string list \<Rightarrow> (string \<times> string) list" where
  "matched_pairs sf_df gsc_df queries =
     concat (map (\<lambda>q. map (\<lambda>url. (q, url))
                          (filter (\<lambda>url. first_page sf_df url \<noteq> None) (landing_pages gsc_df q)))
               queries)"

section \<open>Example inputs\<close>

text \<open>
  An analytics export with two queries, the first on two landing pages and listed twice
  on one of them, and a crawl export with two rows for the same address and none for the
  other landing page.
\<close>

definition ex_gsc :: "gsc_row list" where
  "ex_gsc =
     [\<lparr>Query = ''Best  Shoes'', Landing_Page = ''https://x.com/p'', Clicks = 10, Impressions = 100\<rparr>,
      \<lparr>Query = ''Best  Shoes'', Landing_Page = ''https://x.com/q'', Clicks = 5, Impressions = 50\<rparr>,
      \<lparr>Query = ''Best  Shoes'', Landing_Page = ''https://x.com/p'', Clicks = 4, Impressions = 40\<rparr>,
      \<lparr>Query = ''hats'', Landing_Page = ''https://x.com/p'', Clicks = 20, Impressions = 10\<rparr>]"

definition ex_sf :: "row list" where
  "ex_sf =
     [[''Address'' \<mapsto> CStr ''https://x.com/p'', ''Title 1'' \<mapsto> CStr ''Best Shoes Online'',
       ''Meta Description 1'' \<mapsto> CNaN, ''H1-1'' \<mapsto> CStr ''Shop Now'',
       ''Post 1'' \<mapsto> CStr ''running shoes for sale''],
      [''Address'' \<mapsto> CStr ''https://x.com/p'', ''Title 1'' \<mapsto> CStr ''Hats'',
       ''Meta Description 1'' \<mapsto> CNaN, ''H1-1'' \<mapsto> CStr ''Hats'']]"


text \<open>
  An analytics export of eleven rows and ten distinct queries: the query with the most
  clicks is listed for two landing pages.
\<close>

definition ex_gsc_eleven :: "gsc_row list" where
  "ex_gsc_eleven =
     [\<lparr>Query = ''a'', Landing_Page = ''https://x.com/a1'', Clicks = 110, Impressions = 1000\<rparr>,
      \<lparr>Query = ''a'', Landing_Page = ''https://x.com/a2'', Clicks = 100, Impressions = 1000\<rparr>,
      \<lparr>Query = ''b'', Landing_Page = ''https://x.com/b'', Clicks = 90, Impressions = 1000\<rparr>,
      \<lparr>Query = ''c'', Landing_Page = ''https://x.com/c'', Clicks = 80, Impressions = 1000\<rparr>,
      \<lparr>Query = ''d'', Landing_Page = ''https://x.com/d'', Clicks = 70, Impressions = 1000\<rparr>,
      \<lparr>Query = ''e'', Landing_Page = ''https://x.com/e'', Clicks = 60, Impressions = 1000\<rparr>,
      \<lparr>Query = ''f'', Landing_Page = ''https://x.com/f'', Clicks = 50, Impressions = 1000\<rparr>,
      \<lparr>Query = ''g'', Landing_Page = ''https://x.com/g'', Clicks = 40, Impressions = 1000\<rparr>,
      \<lparr>Query = ''h'', Landing_Page = ''https://x.com/h'', Clicks = 30, Impressions = 1000\<rparr>,
      \<lparr>Query = ''i'', Landing_Page = ''https://x.com/i'', Clicks = 20, Impressions = 1000\<rparr>,
      \<lparr>Query = ''j'', Landing_Page = ''https://x.com/j'', Clicks = 10, Impressions = 1000\<rparr>]"

text \<open>
  The scorecard of one query on one page, found in the title and in the content only.
\<close>

definition ex_results :: "result_row list" where
  "ex_results =
     [\<lparr>r_Query = ''shoes'', r_URL = ''https://x.com/p'',
       r_checks = [''Title'' \<mapsto> True, ''Meta Description'' \<mapsto> False, ''H1'' \<mapsto> False,
                   ''H2s'' \<mapsto> False, ''Content'' \<mapsto> True]\<rparr>]"



text \<open>
  An analytics export in which a query is seen first on the landing page with fewer
  clicks, and a crawl export with a page for each landing page.
\<close>

definition ex_gsc_order :: "gsc_row list" where
  "ex_gsc_order =
     [\<lparr>Query = ''shoes'', Landing_Page = ''https://x.com/q'', Clicks = 5, Impressions = 50\<rparr>,
      \<lparr>Query = ''shoes'', Landing_Page = ''https://x.com/p'', Clicks = 10, Impressions = 100\<rparr>,
      \<lparr>Query = ''shoes'', Landing_Page = ''https://x.com/r'', Clicks = 8, Impressions = 80\<rparr>,
      \<lparr>Query = ''shoes'', Landing_Page = ''https://x.com/q'', Clicks = 3, Impressions = 30\<rparr>,
      \<lparr>Query = ''hats'', Landing_Page = ''https://x.com/p'', Clicks = 20, Impressions = 10\<rparr>]"

definition ex_sf_order :: "row list" where
  "ex_sf_order =
     [[''Address'' \<mapsto> CStr ''https://x.com/p'', ''Title 1'' \<mapsto> CStr ''Best Shoes Online'',
       ''Meta Description 1'' \<mapsto> CNaN, ''H1-1'' \<mapsto> CStr ''Shop Now''],
      [''Address'' \<mapsto> CStr ''https://x.com/q'', ''Title 1'' \<mapsto> CStr ''Boots'',
       ''Meta Description 1'' \<mapsto> CNaN, ''H1-1'' \<mapsto> CStr ''Boots''],
      [''Address'' \<mapsto> CStr ''https://x.com/p'', ''Title 1'' \<mapsto> CStr ''Hats'',
       ''Meta Description 1'' \<mapsto> CNaN, ''H1-1'' \<mapsto> CStr ''Hats'']]"

text \<open>
  The scorecard of a query of one space and of the query shoes on one page: the first row
  carries no field.
\<close>

definition ex_mixed :: "result_row list" where
  "ex_mixed =
     [\<lparr>r_Query = '' '', r_URL = ''https://x.com/p'', r_checks = Map.empty\<rparr>,
      \<lparr>r_Query = ''shoes'', r_URL = ''https://x.com/p'',
       r_checks = [''Title'' \<mapsto> True, ''Meta Description'' \<mapsto> False, ''H1'' \<mapsto> False,
                   ''H2s'' \<mapsto> False, ''Content'' \<mapsto> True]\<rparr>]"

section \<open>Strings: splitting, joining and lower-casing\<close>

lemma of_char_shift:
  "is_upper c \<Longrightarrow> (of_char (char_of (of_char c + 32 :: nat)) :: nat) = of_char c + 32"
proof -
  assume "is_upper c"
  then have "(of_char c :: nat) + 32 < 256" by (auto simp: is_upper_def Let_def)
  then show ?thesis by (simp only: of_char_of mod_less)
qed

lemma not_upper_lower: "\<not> is_upper (py_lower_char c)"
proof (cases "is_upper c")
  case True
  then have "(of_char (py_lower_char c) :: nat) = of_char c + 32"
    by (simp only: py_lower_char_def if_True of_char_shift)
  with True show ?thesis by (auto simp: is_upper_def Let_def)
next
  case False
  then show ?thesis by (simp add: py_lower_char_def)
qed

lemma py_lower_char_idem: "py_lower_char (py_lower_char c) = py_lower_char c"
  using not_upper_lower [of c] by (simp add: py_lower_char_def)

lemma py_isspace_lower: "py_isspace (py_lower_char c) = py_isspace c"
proof (cases "is_upper c")
  case True
  then have e: "(of_char (py_lower_char c) :: nat) = of_char c + 32"
    by (simp only: py_lower_char_def if_True of_char_shift)
  have "\<not> py_isspace c" using True by (auto simp: is_upper_def py_isspace_def Let_def)
  moreover have "\<not> py_isspace (py_lower_char c)"
    using True unfolding py_isspace_def Let_def e by (auto simp: is_upper_def Let_def)
  ultimately show ?thesis by simp
next
  case False
  then show ?thesis by (simp add: py_lower_char_def)
qed

lemma py_isspace_space: "py_isspace CHR '' ''"
  by (simp add: py_isspace_def)

lemma py_lower_space: "py_lower_char CHR '' '' = CHR '' ''"
  by (simp add: py_lower_char_def is_upper_def)

lemma py_split_Nil: "py_split [] = []"
  by (simp add: py_split.simps)

lemma py_split_space: "py_isspace c \<Longrightarrow> py_split (c # s) = py_split s"
  by (subst py_split.simps, subst (2) py_split.simps) simp

lemma py_split_spaces: "\<forall>x\<in>set pre. py_isspace x \<Longrightarrow> py_split (pre @ s) = py_split s"
  by (induction pre) (simp_all add: py_split_space)

lemma py_split_all_space: "\<forall>x\<in>set s. py_isspace x \<Longrightarrow> py_split s = []"
  using py_split_spaces [of s "[]"] by (simp add: py_split_Nil)

lemma py_split_word:
  assumes "\<not> py_isspace c" and "\<forall>x\<in>set w. \<not> py_isspace x"
    and "rest = [] \<or> py_isspace (hd rest)"
  shows "py_split (c # w @ rest) = (c # w) # py_split rest"
proof -
  have t: "takeWhile (\<lambda>x. \<not> py_isspace x) (w @ rest) = w"
    using assms(2,3) by (cases rest) (simp_all add: takeWhile_append2)
  have d: "dropWhile (\<lambda>x. \<not> py_isspace x) (w @ rest) = rest"
    using assms(2,3) by (cases rest) (simp_all add: dropWhile_append2)
  have "dropWhile py_isspace (c # w @ rest) = c # w @ rest"
    using assms(1) by simp
  then show ?thesis
    by (subst py_split.simps) (simp only: list.case t d)
qed

lemma py_split_step:
  assumes "\<forall>x\<in>set pre. py_isspace x" and "\<not> py_isspace c" and "\<forall>x\<in>set w. \<not> py_isspace x"
    and "rest = [] \<or> py_isspace (hd rest)"
  shows "py_split (pre @ c # w @ rest) = (c # w) # py_split rest"
  using py_split_spaces [OF assms(1), of "c # w @ rest"] py_split_word [OF assms(2-4)] by simp

text \<open>Every string is all whitespace, or whitespace, a word, and a rest that does not continue the word.\<close>

lemma words_cases:
  obtains "\<forall>x\<in>set s. py_isspace x"
  | pre c w rest where "s = pre @ c # w @ rest" "\<forall>x\<in>set pre. py_isspace x" "\<not> py_isspace c"
      "\<forall>x\<in>set w. \<not> py_isspace x" "rest = [] \<or> py_isspace (hd rest)"
proof (cases "dropWhile py_isspace s")
  case Nil
  then have "\<forall>x\<in>set s. py_isspace x" by (simp only: dropWhile_eq_Nil_conv)
  then show ?thesis by (rule that(1))
next
  case (Cons c cs)
  let ?pre = "takeWhile py_isspace s"
  let ?w = "takeWhile (\<lambda>x. \<not> py_isspace x) cs"
  let ?rest = "dropWhile (\<lambda>x. \<not> py_isspace x) cs"
  have "s = ?pre @ dropWhile py_isspace s" by (simp only: takeWhile_dropWhile_id)
  then have 1: "s = ?pre @ c # ?w @ ?rest" by (simp only: Cons takeWhile_dropWhile_id)
  have 2: "\<forall>x\<in>set ?pre. py_isspace x" by (auto dest: set_takeWhileD)
  have 3: "\<not> py_isspace c" using hd_dropWhile [of py_isspace s] by (simp only: Cons list.sel) simp
  have 4: "\<forall>x\<in>set ?w. \<not> py_isspace x" by (auto dest: set_takeWhileD)
  have 5: "?rest = [] \<or> py_isspace (hd ?rest)"
    using hd_dropWhile [of "\<lambda>x. \<not> py_isspace x" cs] by blast
  show ?thesis using 1 2 3 4 5 by (rule that(2))
qed

lemma words_induct [case_names spaces word]:
  assumes "\<And>s. \<forall>x\<in>set s. py_isspace x \<Longrightarrow> P s"
    and "\<And>pre c w rest. \<forall>x\<in>set pre. py_isspace x \<Longrightarrow> \<not> py_isspace c \<Longrightarrow>
           \<forall>x\<in>set w. \<not> py_isspace x \<Longrightarrow> rest = [] \<or> py_isspace (hd rest) \<Longrightarrow> P rest \<Longrightarrow>
           P (pre @ c # w @ rest)"
  shows "P s"
proof (induction s rule: length_induct)
  case (1 s)
  show ?case
  proof (cases s rule: words_cases)
    case 1
    then show ?thesis by (rule assms(1))
  next
    case (2 pre c w rest)
    have "length rest < length s" unfolding 2(1) by simp
    with 1 have "P rest" by blast
    with 2(2-5) show ?thesis unfolding 2(1) by (rule assms(2))
  qed
qed


lemma py_join_Cons: "ws \<noteq> [] \<Longrightarrow> py_join sep (w # ws) = w @ sep @ py_join sep ws"
  by (cases ws) simp_all

lemma words_ok_split: "words_ok (py_split s)"
proof (induction s rule: words_induct)
  case (spaces s)
  then show ?case by (simp add: py_split_all_space words_ok_def)
next
  case (word pre c w rest)
  then show ?case by (simp add: py_split_step words_ok_def)
qed

lemma py_split_join: "words_ok ws \<Longrightarrow> py_split (py_join '' '' ws) = ws"
proof (induction ws)
  case Nil
  then show ?case by (simp add: py_split_Nil)
next
  case (Cons w ws)
  then obtain c cs where w: "w = c # cs" and c: "\<not> py_isspace c" and cs: "\<forall>x\<in>set cs. \<not> py_isspace x"
    by (cases w) (auto simp: words_ok_def)
  have ok: "words_ok ws" using Cons.prems by (simp add: words_ok_def)
  show ?case
  proof (cases "ws = []")
    case True
    then show ?thesis
      using py_split_word [OF c cs, of "[]"] w by (simp add: py_split_Nil)
  next
    case False
    let ?rest = "py_join '' '' ws"
    have "py_split (py_join '' '' (w # ws)) = py_split (c # cs @ (CHR '' '' # ?rest))"
      using w False by (simp add: py_join_Cons)
    also have "\<dots> = (c # cs) # py_split (CHR '' '' # ?rest)"
      by (rule py_split_word [OF c cs]) (simp add: py_isspace_space)
    also have "\<dots> = w # ws"
      using Cons.IH ok w by (simp add: py_split_space py_isspace_space)
    finally show ?thesis .
  qed
qed

lemma dropWhile_hd_id: "xs \<noteq> [] \<Longrightarrow> \<not> P (hd xs) \<Longrightarrow> dropWhile P xs = xs"
  by (cases xs) auto

lemma py_strip_trimmed: "trimmed x \<Longrightarrow> py_strip x = x"
proof (cases "x = []")
  case True
  then show ?thesis by (simp add: py_strip_def)
next
  case False
  assume "trimmed x"
  with False have h: "\<not> py_isspace (hd x)" and l: "\<not> py_isspace (last x)"
    by (auto simp: trimmed_def)
  have 1: "dropWhile py_isspace x = x"
    using False h by (rule dropWhile_hd_id)
  have "\<not> py_isspace (hd (rev x))" using False l by (simp add: hd_rev)
  then have 2: "dropWhile py_isspace (rev x) = rev x"
    using False by (intro dropWhile_hd_id) simp_all
  show ?thesis by (simp add: py_strip_def 1 2)
qed

lemma py_join_ends:
  "words_ok ws \<Longrightarrow> ws \<noteq> [] \<Longrightarrow>
   py_join '' '' ws \<noteq> [] \<and> hd (py_join '' '' ws) = hd (hd ws) \<and> last (py_join '' '' ws) = last (last ws)"
proof (induction ws)
  case Nil
  then show ?case by simp
next
  case (Cons w ws)
  show ?case
  proof (cases "ws = []")
    case True
    with Cons.prems show ?thesis by (simp add: words_ok_def)
  next
    case False
    have "words_ok ws" using Cons.prems by (simp add: words_ok_def)
    with Cons.IH False have ih: "py_join '' '' ws \<noteq> []" "last (py_join '' '' ws) = last (last ws)"
      by simp_all
    have "w \<noteq> []" using Cons.prems by (simp add: words_ok_def)
    then show ?thesis using False ih by (simp add: py_join_Cons)
  qed
qed

lemma trimmed_join: "words_ok ws \<Longrightarrow> trimmed (py_join '' '' ws)"
proof (cases "ws = []")
  case True
  then show ?thesis by (simp add: trimmed_def)
next
  case False
  assume ok: "words_ok ws"
  have "hd ws \<in> set ws" "last ws \<in> set ws" using False by simp_all
  then have "hd ws \<noteq> []" "last ws \<noteq> []" "\<forall>c\<in>set (hd ws). \<not> py_isspace c" "\<forall>c\<in>set (last ws). \<not> py_isspace c"
    using ok by (auto simp: words_ok_def)
  then have "\<not> py_isspace (hd (hd ws))" "\<not> py_isspace (last (last ws))"
    by simp_all
  then show ?thesis
    using py_join_ends [OF ok False] by (simp add: trimmed_def)
qed

lemma py_lower_join: "py_lower (py_join '' '' ws) = py_join '' '' (map py_lower ws)"
  by (induction "'' ''" ws rule: py_join.induct) (simp_all add: py_lower_def py_lower_space)

lemma py_split_lower: "py_split (py_lower s) = map py_lower (py_split s)"
proof (induction s rule: words_induct)
  case (spaces s)
  then have "\<forall>x\<in>set (py_lower s). py_isspace x"
    by (simp add: py_lower_def py_isspace_lower)
  with spaces show ?case by (simp add: py_split_all_space)
next
  case (word pre c w rest)
  have 1: "\<forall>x\<in>set (py_lower pre). py_isspace x"
    using word(1) by (simp add: py_lower_def py_isspace_lower)
  have 2: "\<not> py_isspace (py_lower_char c)"
    using word(2) by (simp add: py_isspace_lower)
  have 3: "\<forall>x\<in>set (py_lower w). \<not> py_isspace x"
    using word(3) by (simp add: py_lower_def py_isspace_lower)
  have 4: "py_lower rest = [] \<or> py_isspace (hd (py_lower rest))"
    using word(4) by (cases rest) (simp_all add: py_lower_def py_isspace_lower)
  have "py_lower (pre @ c # w @ rest) = py_lower pre @ py_lower_char c # py_lower w @ py_lower rest"
    by (simp add: py_lower_def)
  then have "py_split (py_lower (pre @ c # w @ rest)) = (py_lower_char c # py_lower w) # py_split (py_lower rest)"
    using py_split_step [OF 1 2 3 4] by simp
  moreover have "py_split (pre @ c # w @ rest) = (c # w) # py_split rest"
    using word(1-4) by (rule py_split_step)
  ultimately show ?case using word.IH by (simp add: py_lower_def)
qed

lemma py_lower_idem: "py_lower (py_lower s) = py_lower s"
  by (simp add: py_lower_def py_lower_char_idem)

lemma clean_text_CStr: "clean_text (Val (CStr s)) = py_join '' '' (py_split (py_lower (py_strip s)))"
  by simp

lemma clean_text_str: "v \<noteq> CNone \<Longrightarrow> clean_text (Val v) = clean_text (Val (CStr (py_str v)))"
  by (cases v) simp_all

lemma clean_text_empty: "clean_text (Val (CStr [])) = []"
  by (simp add: py_strip_def py_lower_def py_split_Nil)

lemma clean_text_idem_str:
  "clean_text (Val (CStr (clean_text (Val (CStr s))))) = clean_text (Val (CStr s))"
proof -
  let ?W = "py_split (py_lower (py_strip s))"
  have ok: "words_ok ?W" by (rule words_ok_split)
  have low: "map py_lower ?W = ?W"
    by (simp add: py_split_lower py_lower_idem)
  have "clean_text (Val (CStr (py_join '' '' ?W)))
      = py_join '' '' (py_split (py_lower (py_join '' '' ?W)))"
    using py_strip_trimmed [OF trimmed_join [OF ok]] by (simp only: clean_text_CStr)
  also have "\<dots> = py_join '' '' (py_split (py_join '' '' ?W))"
    by (simp only: py_lower_join low)
  also have "\<dots> = py_join '' '' ?W"
    by (simp only: py_split_join [OF ok])
  finally show ?thesis by (simp only: clean_text_CStr)
qed

lemma clean_text_idem: "clean_text (Val (CStr (clean_text x))) = clean_text x"
proof (cases x)
  case Obj
  then have "clean_text x = []" by simp
  then show ?thesis by (simp only: clean_text_empty)
next
  case (Val v)
  show ?thesis
  proof (cases "v = CNone")
    case True
    with Val have "clean_text x = []" by simp
    then show ?thesis by (simp only: clean_text_empty)
  next
    case False
    have "clean_text x = clean_text (Val (CStr (py_str v)))"
      unfolding Val using False by (rule clean_text_str)
    then show ?thesis by (simp only: clean_text_idem_str)
  qed
qed

lemma py_split_eq_Nil: "py_split s = [] \<Longrightarrow> \<forall>x\<in>set s. py_isspace x"
  by (cases s rule: words_cases) (simp_all add: py_split_step)

lemma collapse_ws_word: "\<forall>x\<in>set u. \<not> py_isspace x \<Longrightarrow> collapse_ws (u @ r) = u @ collapse_ws r"
  by (induction u) simp_all

lemma join_split_collapse:
  "x = [] \<or> \<not> py_isspace (last x) \<Longrightarrow> py_join '' '' (py_split x) = collapse_ws (dropWhile py_isspace x)"
proof (induction x rule: words_induct)
  case (spaces s)
  have "s = []"
  proof (rule ccontr)
    assume "s \<noteq> []"
    then have "last s \<in> set s" by simp
    with spaces show False using \<open>s \<noteq> []\<close> by blast
  qed
  then show ?case by (simp add: py_split_Nil)
next
  case (word pre c w rest)
  have split: "py_split (pre @ c # w @ rest) = (c # w) # py_split rest"
    using word(1-4) by (rule py_split_step)
  have "dropWhile py_isspace (pre @ c # w @ rest) = dropWhile py_isspace (c # w @ rest)"
    using word(1) by (simp add: dropWhile_append2)
  then have drop: "dropWhile py_isspace (pre @ c # w @ rest) = c # w @ rest"
    using word(2) by simp
  have coll: "collapse_ws (c # w @ rest) = c # w @ collapse_ws rest"
    using word(2) collapse_ws_word [OF word(3)] by simp
  show ?case
  proof (cases "rest = []")
    case True
    show ?thesis unfolding split drop coll using True by (simp add: py_split_Nil)
  next
    case False
    with word(4) obtain h t where rest: "rest = h # t" and h: "py_isspace h"
      by (cases rest) auto
    have last: "\<not> py_isspace (last rest)"
      using word.prems False by simp
    with word.IH have ih: "py_join '' '' (py_split rest) = collapse_ws (dropWhile py_isspace rest)"
      by simp
    have "last rest \<in> set rest" using False by simp
    with last have "py_split rest \<noteq> []" using py_split_eq_Nil [of rest] by blast
    then have j: "py_join '' '' ((c # w) # py_split rest) = (c # w) @ '' '' @ py_join '' '' (py_split rest)"
      by (rule py_join_Cons)
    have cr: "collapse_ws rest = CHR '' '' # collapse_ws (dropWhile py_isspace rest)"
      using h by (simp add: rest)
    have a: "py_join '' '' (py_split (pre @ c # w @ rest))
        = c # w @ CHR '' '' # collapse_ws (dropWhile py_isspace rest)"
      unfolding split j ih by simp
    have b: "collapse_ws (dropWhile py_isspace (pre @ c # w @ rest))
        = c # w @ CHR '' '' # collapse_ws (dropWhile py_isspace rest)"
      unfolding drop coll cr by simp
    show ?thesis unfolding a b ..
  qed
qed

lemma strip_prefix: "\<exists>t. y = rev (dropWhile P (rev y)) @ t"
proof -
  have "rev y = takeWhile P (rev y) @ dropWhile P (rev y)" by simp
  then have "rev (rev y) = rev (takeWhile P (rev y) @ dropWhile P (rev y))" by (rule arg_cong)
  then have "y = rev (dropWhile P (rev y)) @ rev (takeWhile P (rev y))" by (simp only: rev_rev_ident rev_append)
  then show ?thesis ..
qed

lemma trimmed_strip: "trimmed (py_strip s)"
proof (cases "py_strip s = []")
  case True
  then show ?thesis by (simp add: trimmed_def)
next
  case False
  let ?y = "dropWhile py_isspace s"
  let ?d = "dropWhile py_isspace (rev ?y)"
  have z: "py_strip s = rev ?d" by (simp add: py_strip_def)
  with False have d: "?d \<noteq> []" by simp
  then have "\<not> py_isspace (hd ?d)" by (rule hd_dropWhile)
  then have l: "\<not> py_isspace (last (py_strip s))" using d by (simp add: z last_rev)
  obtain t where t: "?y = py_strip s @ t" unfolding z using strip_prefix [of ?y py_isspace] by blast
  with False have y: "?y \<noteq> []" by auto
  then have "\<not> py_isspace (hd ?y)" by (rule hd_dropWhile)
  moreover have "hd ?y = hd (py_strip s)" using False by (subst t) simp
  ultimately show ?thesis using l by (simp add: trimmed_def)
qed

lemma trimmed_lower: "trimmed x \<Longrightarrow> trimmed (py_lower x)"
  by (cases "x = []") (simp_all add: trimmed_def py_lower_def hd_map last_map py_isspace_lower)

lemma trim_eq: "trim s = py_strip s"
  by (simp add: trim_def py_strip_def)

lemma clean_text_spec: "clean_text (Val (CStr s)) = spec_normalize s"
proof -
  let ?x = "py_lower (py_strip s)"
  have tr: "trimmed ?x" by (intro trimmed_lower trimmed_strip)
  then have "?x = [] \<or> \<not> py_isspace (last ?x)" by (auto simp: trimmed_def)
  then have "py_join '' '' (py_split ?x) = collapse_ws (dropWhile py_isspace ?x)"
    by (rule join_split_collapse)
  moreover have "dropWhile py_isspace ?x = ?x"
    using tr by (cases "?x = []") (simp_all add: trimmed_def dropWhile_hd_id)
  ultimately show ?thesis by (simp add: spec_normalize_def trim_eq)
qed

section \<open>The normalizer\<close>

text \<open>
  The normalizer gives a string, an integer, a boolean and a float trimmed, lower-cased
  and with each run of whitespace collapsed to one space; None and a non-scalar object
  give the empty string; every input has a result, and normalizing a result again leaves
  it unchanged.
\<close>

lemma clean_text_normalizes:
  "clean_text (Val (CStr s)) = spec_normalize s
   \<and> clean_text (Val (CInt i)) = spec_normalize (str_int i)
   \<and> clean_text (Val (CBool b)) = spec_normalize (if b then ''True'' else ''False'')
   \<and> clean_text (Val (CFloat r)) = spec_normalize r
   \<and> clean_text (Val CNaN) = spec_normalize ''nan''
   \<and> clean_text (Val CNone) = []
   \<and> clean_text Obj = []
   \<and> clean_text (Val (CStr (clean_text x))) = clean_text x"
proof -
  have n: "clean_text (Val v) = spec_normalize (py_str v)" if "v \<noteq> CNone" for v
  proof -
    have "clean_text (Val v) = clean_text (Val (CStr (py_str v)))"
      using that by (rule clean_text_str)
    also have "\<dots> = spec_normalize (py_str v)"
      by (rule clean_text_spec)
    finally show ?thesis .
  qed
  have "clean_text (Val (CStr s)) = spec_normalize s"
    using n [of "CStr s"] by simp
  moreover have "clean_text (Val (CInt i)) = spec_normalize (str_int i)"
    using n [of "CInt i"] by simp
  moreover have "clean_text (Val (CBool b)) = spec_normalize (if b then ''True'' else ''False'')"
    using n [of "CBool b"] by simp
  moreover have "clean_text (Val (CFloat r)) = spec_normalize r"
    using n [of "CFloat r"] by simp
  moreover have "clean_text (Val CNaN) = spec_normalize ''nan''"
    using n [of CNaN] by simp
  moreover have "clean_text (Val CNone) = []" "clean_text Obj = []"
    by simp_all
  moreover have "clean_text (Val (CStr (clean_text x))) = clean_text x"
    by (rule clean_text_idem)
  ultimately show ?thesis by blast
qed

text \<open>
  C9. The text of an empty cell of the crawl export, which pandas reads as NaN, is
  normalized to "nan" and not to the empty string.
\<close>

theorem clean_text_of_empty_cell:
  "clean_text (Val CNaN) = ''nan''"
  by code_simp

section \<open>The field matcher\<close>

lemma py_in_sublist: "py_in q t = sublist q t"
  by (induction t) (simp_all add: sublist_Cons_right)

lemma h2_columns_eq: "h2_columns = [''H2-1'', ''H2-2'', ''H2-3'', ''H2-4'', ''H2-5'']"
  by code_simp

lemma collect_h2_eq:
  "collect_h2 row cols acc =
     acc @ concat (map (\<lambda>c. case row c of None \<Rightarrow> []
                              | Some v \<Rightarrow> if notna v then [clean_text (Val v)] else []) cols)"
  by (induction cols arbitrary: acc) (simp_all split: option.splits)

lemma set_collect_h2:
  "set (collect_h2 row cols []) = {t. \<exists>c\<in>set cols. \<exists>v. row c = Some v \<and> notna v \<and> t = clean_text (Val v)}"
proof -
  have slot: "t \<in> set (case row c of None \<Rightarrow> [] | Some v \<Rightarrow> if notna v then [clean_text (Val v)] else [])
      \<longleftrightarrow> (\<exists>v. row c = Some v \<and> notna v \<and> t = clean_text (Val v))" for t c
    by (cases "row c") auto
  have "t \<in> set (collect_h2 row cols []) \<longleftrightarrow>
      (\<exists>c\<in>set cols. \<exists>v. row c = Some v \<and> notna v \<and> t = clean_text (Val v))" for t
    unfolding collect_h2_eq by (simp only: append_Nil set_concat set_map UN_iff bex_simps image_iff slot)
  then show ?thesis by blast
qed


lemma analyze_H2s:
  "clean_text (Val (CStr query)) \<noteq> [] \<Longrightarrow>
   analyze_query_in_elements query row sc ''H2s'' =
     Some (list_ex (\<lambda>t. py_in (clean_text (Val (CStr query))) t)
             (filter (\<lambda>t. t \<noteq> []) (collect_h2 row h2_columns [])))"
  by (simp add: analyze_query_in_elements_def Let_def del: clean_text.simps)

lemma analyze_Content:
  "clean_text (Val (CStr query)) \<noteq> [] \<Longrightarrow>
   analyze_query_in_elements query row sc ''Content'' =
     Some (check_content (clean_text (Val (CStr query))) row sc)"
  by (simp add: analyze_query_in_elements_def Let_def del: clean_text.simps)

text \<open>
  C7. For a query whose normalized form is not empty, the H2s result is true exactly when
  the normalized query is a substring of the normalized text of one of the columns H2-1 to
  H2-5 that the row has, that is not missing and whose normalized text is not empty; with
  no H2 column in the row the result is false.
\<close>

theorem h2s_any_slot:
  assumes "clean_text (Val (CStr query)) \<noteq> []"
  shows "analyze_query_in_elements query row sc ''H2s'' =
           Some (\<exists>col\<in>{''H2-1'', ''H2-2'', ''H2-3'', ''H2-4'', ''H2-5''}. \<exists>v.
                   row col = Some v \<and> notna v \<and> clean_text (Val v) \<noteq> []
                   \<and> sublist (clean_text (Val (CStr query))) (clean_text (Val v)))
         \<and> ((\<forall>col\<in>{''H2-1'', ''H2-2'', ''H2-3'', ''H2-4'', ''H2-5''}. row col = None)
              \<longrightarrow> analyze_query_in_elements query row sc ''H2s'' = Some False)"
proof -
  let ?q = "clean_text (Val (CStr query))"
  let ?cols = "{''H2-1'', ''H2-2'', ''H2-3'', ''H2-4'', ''H2-5''}"
  have cols: "set h2_columns = ?cols"
    by (simp only: h2_columns_eq) simp
  have "list_ex (\<lambda>t. py_in ?q t) (filter (\<lambda>t. t \<noteq> []) (collect_h2 row h2_columns []))
      = (\<exists>t\<in>set (collect_h2 row h2_columns []). t \<noteq> [] \<and> sublist ?q t)"
    by (auto simp: list_ex_iff py_in_sublist)
  also have "\<dots> = (\<exists>col\<in>?cols. \<exists>v. row col = Some v \<and> notna v \<and> clean_text (Val v) \<noteq> []
                   \<and> sublist ?q (clean_text (Val v)))"
    unfolding set_collect_h2 cols by blast
  finally have 1: "analyze_query_in_elements query row sc ''H2s'' =
           Some (\<exists>col\<in>?cols. \<exists>v. row col = Some v \<and> notna v \<and> clean_text (Val v) \<noteq> []
                   \<and> sublist ?q (clean_text (Val v)))"
    using analyze_H2s [OF assms, of row sc] by (simp only:)
  have 2: "analyze_query_in_elements query row sc ''H2s'' = Some False"
    if "\<forall>col\<in>?cols. row col = None"
    unfolding 1 using that by auto
  from 1 2 show ?thesis by blast
qed

theorem h2s_any_slot_witness:
  "clean_text (Val (CStr ''Running Shoes'')) \<noteq> []
   \<and> analyze_query_in_elements ''Running Shoes''
        [''Address'' \<mapsto> CStr ''https://x.com/p'', ''H2-1'' \<mapsto> CNaN, ''H2-2'' \<mapsto> CStr ''Hats'',
         ''H2-3'' \<mapsto> CStr ''Best RUNNING  shoes online''] Map.empty ''H2s'' = Some True
   \<and> analyze_query_in_elements ''Running Shoes'' [''Address'' \<mapsto> CStr ''https://x.com/p''] Map.empty ''H2s''
       = Some False"
proof -
  have h: "clean_text (Val (CStr ''Running Shoes'')) \<noteq> []" by code_simp
  have a: "analyze_query_in_elements ''Running Shoes''
        [''Address'' \<mapsto> CStr ''https://x.com/p'', ''H2-1'' \<mapsto> CNaN, ''H2-2'' \<mapsto> CStr ''Hats'',
         ''H2-3'' \<mapsto> CStr ''Best RUNNING  shoes online''] Map.empty ''H2s'' = Some True"
    by code_simp
  have "analyze_query_in_elements ''Running Shoes'' [''Address'' \<mapsto> CStr ''https://x.com/p''] Map.empty ''H2s''
       = Some False"
    using h2s_any_slot [OF h, of "[''Address'' \<mapsto> CStr ''https://x.com/p'']" Map.empty] by simp
  with h a show ?thesis by blast
qed

text \<open>
  C5. For a query whose normalized form is not empty and a page whose address is a
  non-empty URL string: when the scraped content has a non-empty text for the URL, the
  Content result is the substring test on the normalized text, whatever the fallback
  column holds; otherwise, when the row has a Post 1 value that is not missing, it is the
  substring test on the normalized value; otherwise it is false.
\<close>

theorem content_precedence:
  assumes "clean_text (Val (CStr query)) \<noteq> []"
    and "row ''Address'' = Some (CStr url)" and "url \<noteq> []"
  shows "(\<forall>content. sc url = Some (Some content) \<and> content \<noteq> [] \<longrightarrow>
            analyze_query_in_elements query row sc ''Content'' =
              Some (sublist (clean_text (Val (CStr query))) (clean_text (Val (CStr content)))))
         \<and> (\<not> (\<exists>content. sc url = Some (Some content) \<and> content \<noteq> []) \<longrightarrow>
              (\<forall>v. row ''Post 1'' = Some v \<and> notna v \<longrightarrow>
                 analyze_query_in_elements query row sc ''Content'' =
                   Some (sublist (clean_text (Val (CStr query))) (clean_text (Val v))))
              \<and> (row ''Post 1'' = None \<or> (\<exists>v. row ''Post 1'' = Some v \<and> \<not> notna v) \<longrightarrow>
                   analyze_query_in_elements query row sc ''Content'' = Some False))"
proof -
  let ?q = "clean_text (Val (CStr query))"
  have nil: "\<not> sublist ?q []" using assms(1) by simp
  have live: "live_content row sc = Some content"
    if "sc url = Some (Some content)" "content \<noteq> []" for content
    using that assms(2,3) by (simp add: live_content_def)
  have nolive: "live_content row sc = None"
    if "\<not> (\<exists>content. sc url = Some (Some content) \<and> content \<noteq> [])"
    using that assms(2,3) by (auto simp: live_content_def split: option.splits)
  have 1: "check_content ?q row sc = sublist ?q (clean_text (Val (CStr content)))"
    if "sc url = Some (Some content)" "content \<noteq> []" for content
    using live [OF that] nil by (auto simp: check_content_def Let_def py_in_sublist simp del: clean_text.simps)
  have 2: "check_content ?q row sc = sublist ?q (clean_text (Val v))"
    if "\<not> (\<exists>content. sc url = Some (Some content) \<and> content \<noteq> [])" "row ''Post 1'' = Some v" "notna v" for v
  proof -
    have "v \<noteq> CNone" using that(3) by auto
    then have "clean_text (Val (CStr (py_str v))) = clean_text (Val v)"
      by (rule clean_text_str [symmetric])
    then show ?thesis
      using nolive [OF that(1)] that(2,3) by (simp add: check_content_def py_in_sublist del: clean_text.simps)
  qed
  have 3: "check_content ?q row sc = False"
    if "\<not> (\<exists>content. sc url = Some (Some content) \<and> content \<noteq> [])"
      "row ''Post 1'' = None \<or> (\<exists>v. row ''Post 1'' = Some v \<and> \<not> notna v)"
    using nolive [OF that(1)] that(2) by (auto simp: check_content_def simp del: clean_text.simps)
  show ?thesis
    unfolding analyze_Content [OF assms(1)] using 1 2 3 by (simp del: clean_text.simps)
qed

theorem content_precedence_witness:
  "clean_text (Val (CStr ''Shoes'')) \<noteq> []
   \<and> [''Address'' \<mapsto> CStr ''https://x.com/p'', ''Post 1'' \<mapsto> CStr ''running shoes for sale'']
       ''Address'' = Some (CStr ''https://x.com/p'')
   \<and> ''https://x.com/p'' \<noteq> []
   \<and> analyze_query_in_elements ''Shoes''
        [''Address'' \<mapsto> CStr ''https://x.com/p'', ''Post 1'' \<mapsto> CStr ''running shoes for sale'']
        [''https://x.com/p'' \<mapsto> Some ''Hats and scarves''] ''Content''
      = Some (sublist (clean_text (Val (CStr ''Shoes''))) (clean_text (Val (CStr ''Hats and scarves''))))
   \<and> \<not> sublist (clean_text (Val (CStr ''Shoes''))) (clean_text (Val (CStr ''Hats and scarves'')))
   \<and> sublist (clean_text (Val (CStr ''Shoes''))) (clean_text (Val (CStr ''running shoes for sale'')))"
proof -
  let ?row = "[''Address'' \<mapsto> CStr ''https://x.com/p'', ''Post 1'' \<mapsto> CStr ''running shoes for sale'']"
  let ?sc = "[''https://x.com/p'' \<mapsto> Some ''Hats and scarves'']"
  have h1: "clean_text (Val (CStr ''Shoes'')) \<noteq> []" by code_simp
  have h2: "?row ''Address'' = Some (CStr ''https://x.com/p'')" by simp
  have h3: "''https://x.com/p'' \<noteq> []" by simp
  have c: "?sc ''https://x.com/p'' = Some (Some ''Hats and scarves'') \<and> ''Hats and scarves'' \<noteq> []"
    by simp
  have a: "analyze_query_in_elements ''Shoes'' ?row ?sc ''Content''
      = Some (sublist (clean_text (Val (CStr ''Shoes''))) (clean_text (Val (CStr ''Hats and scarves''))))"
    using content_precedence [of "''Shoes''" ?row "''https://x.com/p''" ?sc, OF h1 h2 h3] c by blast
  have n: "\<not> sublist (clean_text (Val (CStr ''Shoes''))) (clean_text (Val (CStr ''Hats and scarves'')))"
    by code_simp
  have f: "sublist (clean_text (Val (CStr ''Shoes''))) (clean_text (Val (CStr ''running shoes for sale'')))"
    by code_simp
  from h1 h2 h3 a n f show ?thesis by blast
qed

text \<open>
  C2. With the query "an" and a page whose title cell is empty in the crawl export (NaN),
  the Title result is true: the cell is normalized to the text "nan".
\<close>

theorem title_of_missing_cell:
  "analyze_query_in_elements ''an''
     [''Address'' \<mapsto> CStr ''https://x.com/p'', ''Title 1'' \<mapsto> CNaN,
      ''Meta Description 1'' \<mapsto> CStr ''All about shoes'', ''H1-1'' \<mapsto> CStr ''Shoes'']
     Map.empty ''Title'' = Some True"
  by code_simp

section \<open>The scorecard generator\<close>

lemma set_unique: "set (unique xs) = set xs"
  by (induction xs rule: unique.induct) auto

lemma distinct_unique: "distinct (unique xs)"
  by (induction xs rule: unique.induct) (auto simp: set_unique)

lemma unique_filter: "unique (filter P xs) = filter P (unique xs)"
proof (induction xs rule: unique.induct)
  case 1
  show ?case by simp
next
  case (2 x xs)
  have ih: "unique (filter P (filter (\<lambda>y. y \<noteq> x) xs)) = filter P (unique (filter (\<lambda>y. y \<noteq> x) xs))"
    by (rule 2)
  show ?case
  proof (cases "P x")
    case True
    have c: "filter (\<lambda>y. y \<noteq> x) (filter P xs) = filter P (filter (\<lambda>y. y \<noteq> x) xs)"
      by (simp add: conj_commute)
    have "unique (filter P (x # xs)) = x # unique (filter (\<lambda>y. y \<noteq> x) (filter P xs))"
      using True by simp
    also have "\<dots> = x # filter P (unique (filter (\<lambda>y. y \<noteq> x) xs))"
      by (simp only: c ih)
    also have "\<dots> = filter P (unique (x # xs))"
      using True by simp
    finally show ?thesis .
  next
    case False
    have c: "filter P xs = filter P (filter (\<lambda>y. y \<noteq> x) xs)"
      using False by (auto intro: filter_cong)
    have "unique (filter P (x # xs)) = unique (filter P xs)"
      using False by simp
    also have "\<dots> = unique (filter P (filter (\<lambda>y. y \<noteq> x) xs))"
      by (rule arg_cong [OF c])
    also have "\<dots> = filter P (unique (filter (\<lambda>y. y \<noteq> x) xs))"
      by (rule ih)
    also have "\<dots> = filter P (unique (x # xs))"
      using False by simp
    finally show ?thesis .
  qed
qed

lemma removeAll_filter: "removeAll x ys = filter (\<lambda>y. y \<noteq> x) ys"
  by (induction ys) auto

text \<open>The values pandas lists as unique are the values in input order, deduplicated.\<close>

lemma unique_first_seen: "unique xs = first_seen xs"
proof (induction xs)
  case Nil
  show ?case by simp
next
  case (Cons x xs)
  have "unique (x # xs) = x # filter (\<lambda>y. y \<noteq> x) (unique xs)"
    by (simp add: unique_filter)
  then show ?case by (simp add: Cons.IH removeAll_filter)
qed

lemma query_urls_landing_pages: "query_urls gsc_df q = landing_pages gsc_df q"
  by (simp add: query_urls_def landing_pages_def unique_first_seen)

lemma scorecard_rows_urls:
  "scorecard_rows sf_df sc gsc_df qs =
     concat (map (\<lambda>q. concat (map (rows_of_pair sf_df sc q) (query_urls gsc_df q))) qs)"
  by (simp add: scorecard_rows_def query_urls_landing_pages)

lemma first_pos_Cons: "first_pos y (x # xs) = (if y = x then 0 else Suc (first_pos y xs))"
  by (auto simp: first_pos_def)

text \<open>In the deduplicated list a value stands before another when it is first seen before it.\<close>

lemma first_seen_order: "sorted_wrt (\<lambda>u v. first_pos u xs < first_pos v xs) (first_seen xs)"
proof (induction xs)
  case Nil
  show ?case by simp
next
  case (Cons x xs)
  let ?tail = "removeAll x (first_seen xs)"
  have "sorted_wrt (\<lambda>u v. first_pos u xs < first_pos v xs) ?tail"
    using Cons.IH by (simp add: removeAll_filter sorted_wrt_filter)
  moreover have "first_pos u (x # xs) < first_pos v (x # xs)"
    if "u \<in> set ?tail" "v \<in> set ?tail" "first_pos u xs < first_pos v xs" for u v
    using that by (simp add: first_pos_Cons)
  ultimately have tail: "sorted_wrt (\<lambda>u v. first_pos u (x # xs) < first_pos v (x # xs)) ?tail"
    by (rule sorted_wrt_mono_rel [rotated])
  have head: "first_pos x (x # xs) < first_pos v (x # xs)" if "v \<in> set ?tail" for v
    using that by (simp add: first_pos_Cons)
  show ?case using tail head by simp
qed

lemma set_first_seen: "set (first_seen xs) = set xs"
  by (induction xs) auto

lemma distinct_first_seen: "distinct (first_seen xs)"
  by (induction xs) (auto simp: distinct_removeAll)

lemma set_insert_desc: "set (insert_desc x ys) = insert x (set ys)"
  by (induction ys) auto

lemma set_sort_desc: "set (sort_desc df) = set df"
  unfolding sort_desc_def by (induction df) (simp_all add: set_insert_desc)

lemma top_queries_subset: "set (top_queries gsc_df) \<subseteq> Query ` set gsc_df"
proof -
  have "set (nlargest 10 gsc_df) \<subseteq> set gsc_df"
    unfolding nlargest_def using set_take_subset [of 10 "sort_desc gsc_df"] by (simp add: set_sort_desc)
  then show ?thesis by (auto simp: top_queries_def set_unique)
qed

lemma set_query_urls: "set (query_urls gsc_df q) = {Landing_Page g |g. g \<in> set gsc_df \<and> Query g = q}"
  by (auto simp: query_urls_def set_unique)

lemma find_filter: "find P xs = (case filter P xs of [] \<Rightarrow> None | x # _ \<Rightarrow> Some x)"
  by (induction xs) simp_all

lemma url_loop_eq:
  assumes "has_column sf_df ''Address''"
  shows "url_loop sf_df sc q urls results = Inr (results @ concat (map (rows_of_pair sf_df sc q) urls))"
proof (induction urls arbitrary: results)
  case Nil
  show ?case by simp
next
  case (Cons url urls)
  have m: "matching_rows sf_df url = Inr (filter (\<lambda>r. r ''Address'' = Some (CStr url)) sf_df)"
    using assms by (simp add: matching_rows_def)
  show ?case
  proof (cases "filter (\<lambda>r. r ''Address'' = Some (CStr url)) sf_df")
    case Nil
    then show ?thesis
      by (simp add: m Cons.IH rows_of_pair_def first_page_def find_filter)
  next
    case (Cons row rest)
    then show ?thesis
      by (simp add: m Cons.IH rows_of_pair_def first_page_def find_filter)
  qed
qed

lemma query_loop_eq:
  assumes "has_column sf_df ''Address''"
  shows "query_loop gsc_df sf_df sc qs results = Inr (results @ scorecard_rows sf_df sc gsc_df qs)"
  by (induction qs arbitrary: results) (simp_all add: scorecard_rows_urls url_loop_eq [OF assms])

lemma rows_of_pair_no_pages: "rows_of_pair [] sc q url = []"
  by (simp add: rows_of_pair_def first_page_def)

lemma scorecard_rows_no_pages: "scorecard_rows [] sc gsc_df qs = []"
  by (simp add: scorecard_rows_urls rows_of_pair_no_pages)

lemma top_queries_Nil: "top_queries [] = []"
  by (simp add: top_queries_def nlargest_def sort_desc_def)

lemma generate_scorecard_eq:
  assumes "has_column sf_df ''Address''"
  shows "generate_scorecard ce gsc_df sf_df scrape_urls =
           Inr (scorecard_rows sf_df (scrape ce gsc_df scrape_urls) gsc_df (top_queries gsc_df))"
proof (cases "gsc_df = [] \<or> sf_df = []")
  case True
  then show ?thesis
    by (auto simp: generate_scorecard_def top_queries_Nil scorecard_rows_no_pages)
      (simp add: scorecard_rows_urls)
next
  case False
  then show ?thesis
    by (simp add: generate_scorecard_def query_loop_eq [OF assms])
qed


lemma length_rows_of_pair: "length (rows_of_pair sf_df sc q url) = (if first_page sf_df url = None then 0 else 1)"
  by (simp add: rows_of_pair_def split: option.splits)



lemma first_page_Some: "first_page sf_df url = Some row \<Longrightarrow> row \<in> set sf_df \<and> row ''Address'' = Some (CStr url)"
  by (auto simp: first_page_def find_Some_iff)

lemma in_scorecard_rows:
  "r \<in> set (scorecard_rows sf_df sc gsc_df qs) \<Longrightarrow>
   \<exists>q\<in>set qs. \<exists>url\<in>set (query_urls gsc_df q). \<exists>row. first_page sf_df url = Some row
      \<and> r = \<lparr>r_Query = q, r_URL = url, r_checks = analyze_query_in_elements q row sc\<rparr>"
proof -
  assume "r \<in> set (scorecard_rows sf_df sc gsc_df qs)"
  then obtain q url where q: "q \<in> set qs" and url: "url \<in> set (query_urls gsc_df q)"
    and r: "r \<in> set (rows_of_pair sf_df sc q url)"
    by (auto simp: scorecard_rows_urls)
  show ?thesis
  proof (cases "first_page sf_df url")
    case None
    with r show ?thesis by (simp add: rows_of_pair_def)
  next
    case (Some row)
    with r have "r = \<lparr>r_Query = q, r_URL = url, r_checks = analyze_query_in_elements q row sc\<rparr>"
      by (simp add: rows_of_pair_def)
    with q url Some show ?thesis by blast
  qed
qed

lemma scorecard_rows_pairs:
  "map (\<lambda>r. (r_Query r, r_URL r)) (scorecard_rows sf_df sc gsc_df qs) = matched_pairs sf_df gsc_df qs"
proof -
  have pair: "map (\<lambda>r. (r_Query r, r_URL r)) (rows_of_pair sf_df sc q url)
      = (if first_page sf_df url \<noteq> None then [(q, url)] else [])" for q url
    by (simp add: rows_of_pair_def split: option.splits)
  have urls: "map (\<lambda>r. (r_Query r, r_URL r)) (concat (map (rows_of_pair sf_df sc q) urls))
      = map (\<lambda>url. (q, url)) (filter (\<lambda>url. first_page sf_df url \<noteq> None) urls)" for q urls
    by (induction urls) (simp_all add: pair)
  show ?thesis
    unfolding scorecard_rows_def matched_pairs_def
    by (induction qs) (simp_all add: urls)
qed

lemma ex_sf_address: "has_column ex_sf ''Address''"
  by (simp add: has_column_def ex_sf_def)

lemma scrape_None: "scrape None gsc_df scrape_urls = Map.empty"
  by (simp add: scrape_def)

lemma scrape_disabled: "scrape ce gsc_df False = Map.empty"
  by (simp add: scrape_def split: option.splits)

text \<open>
  C6. On a crawl export with an Address column the scorecard is, for the top queries in
  rank order and for the landing pages of each query in input order, deduplicated, one row
  for the first page whose address equals the URL and no row when there is no such page.
  The list of URLs the loop runs over is that list of landing pages: it has each landing
  page of the query once, and a page stands before another exactly when it is first seen
  before it in the analytics export. The queries and URLs of the rows are the matched
  pairs in that order.
\<close>

theorem scorecard_join:
  assumes "has_column sf_df ''Address''"
  shows "generate_scorecard ce gsc_df sf_df scrape_urls =
           Inr (scorecard_rows sf_df (scrape ce gsc_df scrape_urls) gsc_df (top_queries gsc_df))
         \<and> map (\<lambda>r. (r_Query r, r_URL r))
              (scorecard_rows sf_df (scrape ce gsc_df scrape_urls) gsc_df (top_queries gsc_df))
             = matched_pairs sf_df gsc_df (top_queries gsc_df)
         \<and> query_urls gsc_df q = landing_pages gsc_df q
         \<and> distinct (landing_pages gsc_df q)
         \<and> set (landing_pages gsc_df q) = {Landing_Page g |g. g \<in> set gsc_df \<and> Query g = q}
         \<and> sorted_wrt (\<lambda>u v. first_pos u (map Landing_Page (filter (\<lambda>g. Query g = q) gsc_df))
                               < first_pos v (map Landing_Page (filter (\<lambda>g. Query g = q) gsc_df)))
              (landing_pages gsc_df q)
         \<and> length (rows_of_pair sf_df sc q url) = (if first_page sf_df url = None then 0 else 1)"
proof -
  have 1: "generate_scorecard ce gsc_df sf_df scrape_urls =
           Inr (scorecard_rows sf_df (scrape ce gsc_df scrape_urls) gsc_df (top_queries gsc_df))"
    by (rule generate_scorecard_eq [OF assms])
  have 2: "map (\<lambda>r. (r_Query r, r_URL r))
              (scorecard_rows sf_df (scrape ce gsc_df scrape_urls) gsc_df (top_queries gsc_df))
             = matched_pairs sf_df gsc_df (top_queries gsc_df)"
    by (rule scorecard_rows_pairs)
  have 3: "query_urls gsc_df q = landing_pages gsc_df q"
    by (rule query_urls_landing_pages)
  have 4: "distinct (landing_pages gsc_df q)"
    by (simp add: landing_pages_def distinct_first_seen)
  have 5: "set (landing_pages gsc_df q) = {Landing_Page g |g. g \<in> set gsc_df \<and> Query g = q}"
    using set_query_urls [of gsc_df q] by (simp only: 3)
  have 6: "sorted_wrt (\<lambda>u v. first_pos u (map Landing_Page (filter (\<lambda>g. Query g = q) gsc_df))
                               < first_pos v (map Landing_Page (filter (\<lambda>g. Query g = q) gsc_df)))
              (landing_pages gsc_df q)"
    unfolding landing_pages_def by (rule first_seen_order)
  have 7: "length (rows_of_pair sf_df sc q url) = (if first_page sf_df url = None then 0 else 1)"
    by (rule length_rows_of_pair)
  show ?thesis by (intro conjI 1 2 3 4 5 6 7)
qed

theorem scorecard_join_witness:
  "has_column ex_sf_order ''Address''
   \<and> map_sum id (map (\<lambda>r. (r_Query r, r_URL r, r_checks r ''Title'')))
        (generate_scorecard None ex_gsc_order ex_sf_order False)
       = Inr [(''hats'', ''https://x.com/p'', Some False),
              (''shoes'', ''https://x.com/q'', Some False),
              (''shoes'', ''https://x.com/p'', Some True)]
   \<and> query_urls ex_gsc_order ''shoes'' = [''https://x.com/q'', ''https://x.com/p'', ''https://x.com/r'']
   \<and> landing_pages ex_gsc_order ''shoes'' = [''https://x.com/q'', ''https://x.com/p'', ''https://x.com/r'']
   \<and> top_queries ex_gsc_order = [''hats'', ''shoes'']"
proof -
  have h: "has_column ex_sf_order ''Address''"
    by (simp add: has_column_def ex_sf_order_def)
  have t: "top_queries ex_gsc_order = [''hats'', ''shoes'']" by code_simp
  have l: "landing_pages ex_gsc_order ''shoes'' = [''https://x.com/q'', ''https://x.com/p'', ''https://x.com/r'']"
    by code_simp
  have g: "generate_scorecard None ex_gsc_order ex_sf_order False
       = Inr (scorecard_rows ex_sf_order Map.empty ex_gsc_order [''hats'', ''shoes''])"
    and u: "query_urls ex_gsc_order ''shoes'' = landing_pages ex_gsc_order ''shoes''"
    using scorecard_join [OF h, of None ex_gsc_order False "''shoes''"] by (simp_all only: t scrape_None)
  have m: "map (\<lambda>r. (r_Query r, r_URL r, r_checks r ''Title''))
        (scorecard_rows ex_sf_order Map.empty ex_gsc_order [''hats'', ''shoes''])
       = [(''hats'', ''https://x.com/p'', Some False),
          (''shoes'', ''https://x.com/q'', Some False),
          (''shoes'', ''https://x.com/p'', Some True)]"
    by code_simp
  have r: "map_sum id (map (\<lambda>r. (r_Query r, r_URL r, r_checks r ''Title'')))
        (generate_scorecard None ex_gsc_order ex_sf_order False)
       = Inr [(''hats'', ''https://x.com/p'', Some False),
              (''shoes'', ''https://x.com/q'', Some False),
              (''shoes'', ''https://x.com/p'', Some True)]"
    by (simp only: g map_sum.simps m)
  show ?thesis
    by (intro conjI h r t l) (simp only: u l)
qed

lemma analyze_normalized:
  "analyze_query_in_elements (clean_text (Val (CStr q))) row sc = analyze_query_in_elements q row sc"
  by (simp only: analyze_query_in_elements_def clean_text_idem_str)

lemma analyze_elements:
  assumes "clean_text (Val (CStr query)) \<noteq> []"
  shows "row ''Title 1'' = Some v \<Longrightarrow>
           analyze_query_in_elements query row sc ''Title'' =
             Some (sublist (clean_text (Val (CStr query))) (clean_text (Val v)))"
    and "row ''Meta Description 1'' = Some v \<Longrightarrow>
           analyze_query_in_elements query row sc ''Meta Description'' =
             Some (sublist (clean_text (Val (CStr query))) (clean_text (Val v)))"
    and "row ''H1-1'' = Some v \<Longrightarrow>
           analyze_query_in_elements query row sc ''H1'' =
             Some (sublist (clean_text (Val (CStr query))) (clean_text (Val v)))"
proof -
  let ?q = "clean_text (Val (CStr query))"
  have nil: "\<not> sublist ?q []" using assms by simp
  have b: "(if t \<noteq> [] then py_in ?q t else False) = sublist ?q t" for t
    using nil by (cases "t = []") (simp_all add: py_in_sublist)
  have a: "analyze_query_in_elements query row sc n = check_elements ?q row elements_to_check Map.empty n"
    if "n \<noteq> ''H2s''" "n \<noteq> ''Content''" for n
    using assms that by (simp add: analyze_query_in_elements_def Let_def del: clean_text.simps)
  show "row ''Title 1'' = Some v \<Longrightarrow>
           analyze_query_in_elements query row sc ''Title'' = Some (sublist ?q (clean_text (Val v)))"
    by (subst a) (simp_all add: elements_to_check_def Let_def b split: option.splits del: clean_text.simps)
  show "row ''Meta Description 1'' = Some v \<Longrightarrow>
           analyze_query_in_elements query row sc ''Meta Description'' = Some (sublist ?q (clean_text (Val v)))"
    by (subst a) (simp_all add: elements_to_check_def Let_def b split: option.splits del: clean_text.simps)
  show "row ''H1-1'' = Some v \<Longrightarrow>
           analyze_query_in_elements query row sc ''H1'' = Some (sublist ?q (clean_text (Val v)))"
    by (subst a) (simp_all add: elements_to_check_def Let_def b split: option.splits del: clean_text.simps)
qed

text \<open>
  C10. On a crawl export with an Address column the scorecard has one row for each
  matched pair of a top query and a landing page, in order, and the top queries are query
  strings of the analytics export. Every row carries the query string of a row of the
  analytics export as it stands there, with that row's landing page; its checks are those
  of this query on the first page with that address. The checks compare the normalized
  query: they are the checks of the normalized query, and when the normalized query is not
  empty the Title, Meta Description and H1 checks are the substring tests of the
  normalized query on the normalized column.
\<close>

theorem row_query_is_raw:
  assumes "has_column sf_df ''Address''"
  shows "\<exists>rows. generate_scorecard ce gsc_df sf_df scrape_urls = Inr rows
           \<and> map (\<lambda>r. (r_Query r, r_URL r)) rows = matched_pairs sf_df gsc_df (top_queries gsc_df)
           \<and> set (top_queries gsc_df) \<subseteq> Query ` set gsc_df
           \<and> (\<forall>r\<in>set rows. \<exists>g\<in>set gsc_df. \<exists>row\<in>set sf_df.
                 r_Query r = Query g \<and> r_URL r = Landing_Page g
                 \<and> first_page sf_df (Landing_Page g) = Some row
                 \<and> row ''Address'' = Some (CStr (Landing_Page g))
                 \<and> r_checks r = analyze_query_in_elements (Query g) row (scrape ce gsc_df scrape_urls)
                 \<and> r_checks r = analyze_query_in_elements (clean_text (Val (CStr (Query g)))) row
                                  (scrape ce gsc_df scrape_urls)
                 \<and> (clean_text (Val (CStr (Query g))) \<noteq> [] \<longrightarrow>
                      (\<forall>v. row ''Title 1'' = Some v \<longrightarrow>
                         r_checks r ''Title'' =
                           Some (sublist (clean_text (Val (CStr (Query g)))) (clean_text (Val v))))
                      \<and> (\<forall>v. row ''Meta Description 1'' = Some v \<longrightarrow>
                           r_checks r ''Meta Description'' =
                             Some (sublist (clean_text (Val (CStr (Query g)))) (clean_text (Val v))))
                      \<and> (\<forall>v. row ''H1-1'' = Some v \<longrightarrow>
                           r_checks r ''H1'' =
                             Some (sublist (clean_text (Val (CStr (Query g)))) (clean_text (Val v))))))"
proof -
  let ?sc = "scrape ce gsc_df scrape_urls"
  let ?rows = "scorecard_rows sf_df ?sc gsc_df (top_queries gsc_df)"
  let ?P = "\<lambda>r g row. r_Query r = Query g \<and> r_URL r = Landing_Page g
                 \<and> first_page sf_df (Landing_Page g) = Some row
                 \<and> row ''Address'' = Some (CStr (Landing_Page g))
                 \<and> r_checks r = analyze_query_in_elements (Query g) row ?sc
                 \<and> r_checks r = analyze_query_in_elements (clean_text (Val (CStr (Query g)))) row ?sc
                 \<and> (clean_text (Val (CStr (Query g))) \<noteq> [] \<longrightarrow>
                      (\<forall>v. row ''Title 1'' = Some v \<longrightarrow>
                         r_checks r ''Title'' =
                           Some (sublist (clean_text (Val (CStr (Query g)))) (clean_text (Val v))))
                      \<and> (\<forall>v. row ''Meta Description 1'' = Some v \<longrightarrow>
                           r_checks r ''Meta Description'' =
                             Some (sublist (clean_text (Val (CStr (Query g)))) (clean_text (Val v))))
                      \<and> (\<forall>v. row ''H1-1'' = Some v \<longrightarrow>
                           r_checks r ''H1'' =
                             Some (sublist (clean_text (Val (CStr (Query g)))) (clean_text (Val v)))))"
  have all: "\<forall>r\<in>set ?rows. \<exists>g\<in>set gsc_df. \<exists>row\<in>set sf_df. ?P r g row"
  proof (rule ballI)
    fix r
    assume "r \<in> set ?rows"
    from in_scorecard_rows [OF this] obtain q url row
      where url: "url \<in> set (query_urls gsc_df q)" and page: "first_page sf_df url = Some row"
        and r: "r = \<lparr>r_Query = q, r_URL = url, r_checks = analyze_query_in_elements q row ?sc\<rparr>"
      by blast
    from url obtain g where g: "g \<in> set gsc_df" "Query g = q" "Landing_Page g = url"
      unfolding set_query_urls by blast
    from first_page_Some [OF page] have row: "row \<in> set sf_df" "row ''Address'' = Some (CStr url)"
      by simp_all
    have sel: "r_Query r = q" "r_URL r = url" "r_checks r = analyze_query_in_elements q row ?sc"
      unfolding r by simp_all
    have "?P r g row"
      unfolding sel g
      using page row(2) analyze_normalized [of q row ?sc] analyze_elements [of q row _ ?sc]
      by (intro conjI impI allI) simp_all
    with g(1) row(1) show "\<exists>g\<in>set gsc_df. \<exists>row\<in>set sf_df. ?P r g row" by blast
  qed
  show ?thesis
  proof (intro exI conjI)
    show "generate_scorecard ce gsc_df sf_df scrape_urls = Inr ?rows"
      by (rule generate_scorecard_eq [OF assms])
    show "map (\<lambda>r. (r_Query r, r_URL r)) ?rows = matched_pairs sf_df gsc_df (top_queries gsc_df)"
      by (rule scorecard_rows_pairs)
    show "set (top_queries gsc_df) \<subseteq> Query ` set gsc_df"
      by (rule top_queries_subset)
    show "\<forall>r\<in>set ?rows. \<exists>g\<in>set gsc_df. \<exists>row\<in>set sf_df. ?P r g row"
      by (rule all)
  qed
qed

theorem row_query_is_raw_witness:
  "has_column ex_sf ''Address''
   \<and> (\<exists>rows. generate_scorecard None ex_gsc ex_sf False = Inr rows
        \<and> map (\<lambda>r. (r_Query r, r_URL r)) rows
            = [(''hats'', ''https://x.com/p''), (''Best  Shoes'', ''https://x.com/p'')])
   \<and> map_sum id (map (\<lambda>r. (r_Query r, r_URL r, r_checks r ''Title'')))
        (generate_scorecard None ex_gsc ex_sf False)
       = Inr [(''hats'', ''https://x.com/p'', Some False), (''Best  Shoes'', ''https://x.com/p'', Some True)]
   \<and> clean_text (Val (CStr ''Best  Shoes'')) = ''best shoes''
   \<and> clean_text (Val (CStr ''Best Shoes Online'')) = ''best shoes online''
   \<and> \<not> sublist ''Best  Shoes'' ''best shoes online''"
proof -
  have p: "matched_pairs ex_sf ex_gsc (top_queries ex_gsc)
      = [(''hats'', ''https://x.com/p''), (''Best  Shoes'', ''https://x.com/p'')]"
    by code_simp
  from row_query_is_raw [OF ex_sf_address, of None ex_gsc False]
  obtain rows where rows: "generate_scorecard None ex_gsc ex_sf False = Inr rows"
    and pairs: "map (\<lambda>r. (r_Query r, r_URL r)) rows = matched_pairs ex_sf ex_gsc (top_queries ex_gsc)"
    by blast
  have 1: "\<exists>rows. generate_scorecard None ex_gsc ex_sf False = Inr rows
        \<and> map (\<lambda>r. (r_Query r, r_URL r)) rows
            = [(''hats'', ''https://x.com/p''), (''Best  Shoes'', ''https://x.com/p'')]"
  proof (intro exI conjI)
    show "generate_scorecard None ex_gsc ex_sf False = Inr rows" by (rule rows)
    show "map (\<lambda>r. (r_Query r, r_URL r)) rows
            = [(''hats'', ''https://x.com/p''), (''Best  Shoes'', ''https://x.com/p'')]"
      by (simp only: pairs p)
  qed
  have g: "generate_scorecard None ex_gsc ex_sf False
      = Inr (scorecard_rows ex_sf Map.empty ex_gsc (top_queries ex_gsc))"
    using generate_scorecard_eq [OF ex_sf_address, of None ex_gsc False] by (simp only: scrape_None)
  have m: "map (\<lambda>r. (r_Query r, r_URL r, r_checks r ''Title''))
        (scorecard_rows ex_sf Map.empty ex_gsc (top_queries ex_gsc))
      = [(''hats'', ''https://x.com/p'', Some False), (''Best  Shoes'', ''https://x.com/p'', Some True)]"
    by code_simp
  have 2: "map_sum id (map (\<lambda>r. (r_Query r, r_URL r, r_checks r ''Title'')))
        (generate_scorecard None ex_gsc ex_sf False)
       = Inr [(''hats'', ''https://x.com/p'', Some False), (''Best  Shoes'', ''https://x.com/p'', Some True)]"
    by (simp only: g map_sum.simps m)
  have 3: "clean_text (Val (CStr ''Best  Shoes'')) = ''best shoes''" by code_simp
  have 4: "clean_text (Val (CStr ''Best Shoes Online'')) = ''best shoes online''" by code_simp
  have 5: "\<not> sublist ''Best  Shoes'' ''best shoes online''" by code_simp
  show ?thesis by (intro conjI ex_sf_address 1 2 3 4 5)
qed




text \<open>
  The selection on four rows with a tie on clicks and a repeated query: the rows are
  ranked by clicks, then impressions, and the repeated query is listed once.
\<close>

lemma top_queries_ranking:
  "top_queries
     [\<lparr>Query = ''a'', Landing_Page = ''https://x.com/1'', Clicks = 10, Impressions = 100\<rparr>,
      \<lparr>Query = ''b'', Landing_Page = ''https://x.com/2'', Clicks = 20, Impressions = 50\<rparr>,
      \<lparr>Query = ''c'', Landing_Page = ''https://x.com/3'', Clicks = 20, Impressions = 200\<rparr>,
      \<lparr>Query = ''a'', Landing_Page = ''https://x.com/4'', Clicks = 10, Impressions = 100\<rparr>]
   = [''c'', ''b'', ''a'']"
  by code_simp

text \<open>
  C1. On an analytics export of eleven rows with ten distinct queries, in which the top
  query is listed for two landing pages, nine queries are selected: the ten rows with the
  most clicks are taken first, and the distinct queries among them afterwards.
\<close>

theorem top_queries_of_eleven_rows:
  "top_queries ex_gsc_eleven = [''a'', ''b'', ''c'', ''d'', ''e'', ''f'', ''g'', ''h'', ''i'']
   \<and> unique (map Query ex_gsc_eleven) = [''a'', ''b'', ''c'', ''d'', ''e'', ''f'', ''g'', ''h'', ''i'', ''j'']"
  by code_simp

section \<open>The metrics aggregator\<close>

lemma coverage_loop_other:
  "k \<notin> coverage_key ` set es \<Longrightarrow> coverage_loop rows es m k = m k"
  by (induction es arbitrary: m) auto

lemma coverage_loop_key:
  "distinct (map coverage_key es) \<Longrightarrow> el \<in> set es \<Longrightarrow>
   coverage_loop rows es m (coverage_key el) =
     (if in_results rows el then Some (column_mean rows el * 100) else m (coverage_key el))"
proof (induction es arbitrary: m)
  case Nil
  then show ?case by simp
next
  case (Cons e es)
  show ?case
  proof (cases "el = e")
    case True
    have "coverage_key e \<notin> coverage_key ` set es" using Cons.prems(1) by auto
    then show ?thesis using True by (simp add: coverage_loop_other)
  next
    case False
    with Cons.prems have el: "el \<in> set es" and d: "distinct (map coverage_key es)"
      and "coverage_key e \<notin> coverage_key ` set es"
      by auto
    with el have ne: "coverage_key el \<noteq> coverage_key e" by (metis image_eqI)
    show ?thesis using Cons.IH [OF d el] ne by simp
  qed
qed

lemma coverage_keys:
  "map coverage_key elements =
     [''title_coverage'', ''meta description_coverage'', ''h1_coverage'', ''h2s_coverage'', ''content_coverage'']"
  by code_simp

lemma coverage_keys_distinct: "distinct (map coverage_key elements)"
  unfolding coverage_keys by simp

lemma coverage_key_not_total:
  "el \<in> set elements \<Longrightarrow> coverage_key el \<noteq> ''total_queries'' \<and> coverage_key el \<noteq> ''total_urls''
     \<and> coverage_key el \<noteq> ''overall_score''"
proof -
  assume "el \<in> set elements"
  then have "coverage_key el \<in> set (map coverage_key elements)" by simp
  then show ?thesis unfolding coverage_keys by auto
qed

lemma column_values_counts:
  "length (column_values rows el) = length (filter (\<lambda>r. r_checks r el \<noteq> None) rows)
   \<and> length (filter (\<lambda>b. b) (column_values rows el))
       = length (filter (\<lambda>r. r_checks r el = Some True) rows)"
proof (induction rows)
  case Nil
  show ?case by (simp add: column_values_def)
next
  case (Cons r rows)
  have step: "column_values (r # rows) el
      = (case r_checks r el of None \<Rightarrow> [] | Some b \<Rightarrow> [b]) @ column_values rows el"
    by (simp add: column_values_def)
  show ?case
  proof (cases "r_checks r el")
    case None
    then show ?thesis using Cons.IH by (simp add: step)
  next
    case (Some b)
    then show ?thesis using Cons.IH by (cases b) (auto simp: step)
  qed
qed

lemma filter_all: "list_all P xs \<Longrightarrow> filter P xs = xs"
  by (induction xs) simp_all

lemma in_results_none:
  "list_all (\<lambda>r. r_checks r el = None) rows \<Longrightarrow> \<not> in_results rows el"
  by (auto simp: in_results_def list_ex_iff list_all_iff)

lemma in_results_all:
  "rows \<noteq> [] \<Longrightarrow> list_all (\<lambda>r. r_checks r el \<noteq> None) rows \<Longrightarrow> in_results rows el"
  by (cases rows) (auto simp: in_results_def)

lemma calculate_metrics_coverage:
  assumes "rows \<noteq> []" and "el \<in> set elements"
  shows "calculate_metrics rows (coverage_key el) =
           (if in_results rows el then Some (column_mean rows el * 100) else None)"
proof -
  have ne: "coverage_key el \<noteq> ''total_queries''" "coverage_key el \<noteq> ''total_urls''"
    "coverage_key el \<noteq> ''overall_score''"
    using coverage_key_not_total [OF assms(2)] by simp_all
  show ?thesis
    using assms(1) ne
    by (simp add: calculate_metrics_def Let_def coverage_loop_key [OF coverage_keys_distinct assms(2)])
qed

lemma calculate_metrics_overall:
  assumes "rows \<noteq> []"
  shows "calculate_metrics rows ''overall_score'' =
           Some (sum_list (map (\<lambda>el. get_default (calculate_metrics rows) (coverage_key el) 0) elements) / 5)"
proof -
  let ?m = "coverage_loop rows elements
      [''total_queries'' \<mapsto> of_nat (length (unique (map r_Query rows))),
       ''total_urls'' \<mapsto> of_nat (length (unique (map r_URL rows)))]"
  let ?s = "sum_list (map (\<lambda>el. get_default ?m (coverage_key el) 0) elements) / 5"
  have len: "length elements = 5" "elements \<noteq> []" by (simp_all add: elements_def)
  have cm: "calculate_metrics rows = ?m(''overall_score'' \<mapsto> ?s)"
    using assms len by (simp add: calculate_metrics_def Let_def)
  have g: "get_default (calculate_metrics rows) (coverage_key el) 0 = get_default ?m (coverage_key el) 0"
    if "el \<in> set elements" for el
    unfolding cm using coverage_key_not_total [OF that] by (simp add: get_default_def)
  have s: "map (\<lambda>el. get_default (calculate_metrics rows) (coverage_key el) 0) elements
      = map (\<lambda>el. get_default ?m (coverage_key el) 0) elements"
    by (rule map_cong [OF refl]) (rule g)
  have "calculate_metrics rows ''overall_score'' = Some ?s"
    by (subst cm) simp
  then show ?thesis by (simp only: s)
qed

text \<open>
  C4. For a scorecard with at least one row: the coverage of a field that some row
  carries is the number of rows where it is true, over the number of rows that carry it,
  times 100, which is over the number of all rows when every row carries it; a field that
  no row carries has no coverage; the overall score is the sum of the five coverages, a
  missing one counting 0, over 5. For the empty scorecard the metrics are empty.
\<close>

theorem metrics_coverage:
  assumes "results_df \<noteq> []" and "el \<in> set elements"
  shows "calculate_metrics results_df (coverage_key el) =
           (if list_ex (\<lambda>r. r_checks r el \<noteq> None) results_df
            then Some (of_nat (length (filter (\<lambda>r. r_checks r el = Some True) results_df))
                         / of_nat (length (filter (\<lambda>r. r_checks r el \<noteq> None) results_df)) * 100)
            else None)
         \<and> (list_all (\<lambda>r. r_checks r el \<noteq> None) results_df \<longrightarrow>
            calculate_metrics results_df (coverage_key el) =
              Some (of_nat (length (filter (\<lambda>r. r_checks r el = Some True) results_df))
                      / of_nat (length results_df) * 100))
         \<and> (list_all (\<lambda>r. r_checks r el = None) results_df \<longrightarrow>
              calculate_metrics results_df (coverage_key el) = None)
         \<and> calculate_metrics results_df ''overall_score'' =
             Some (sum_list (map (\<lambda>e. case calculate_metrics results_df (coverage_key e) of
                                          Some v \<Rightarrow> v | None \<Rightarrow> 0) elements) / 5)
         \<and> elements = [''Title'', ''Meta Description'', ''H1'', ''H2s'', ''Content'']
         \<and> map coverage_key elements =
             [''title_coverage'', ''meta description_coverage'', ''h1_coverage'', ''h2s_coverage'',
              ''content_coverage'']
         \<and> calculate_metrics [] = Map.empty"
proof -
  have cv: "length (column_values results_df el) = length (filter (\<lambda>r. r_checks r el \<noteq> None) results_df)"
    "length (filter (\<lambda>b. b) (column_values results_df el))
       = length (filter (\<lambda>r. r_checks r el = Some True) results_df)"
    using column_values_counts [of results_df el] by blast+
  have 0: "calculate_metrics results_df (coverage_key el) =
           (if list_ex (\<lambda>r. r_checks r el \<noteq> None) results_df
            then Some (of_nat (length (filter (\<lambda>r. r_checks r el = Some True) results_df))
                         / of_nat (length (filter (\<lambda>r. r_checks r el \<noteq> None) results_df)) * 100)
            else None)"
    by (simp only: calculate_metrics_coverage [OF assms] column_mean_def cv in_results_def)
  have 1: "calculate_metrics results_df (coverage_key el) =
              Some (of_nat (length (filter (\<lambda>r. r_checks r el = Some True) results_df))
                      / of_nat (length results_df) * 100)"
    if "list_all (\<lambda>r. r_checks r el \<noteq> None) results_df"
  proof -
    have "in_results results_df el"
      by (rule in_results_all [OF assms(1) that])
    then have "list_ex (\<lambda>r. r_checks r el \<noteq> None) results_df"
      by (simp only: in_results_def)
    then show ?thesis by (simp only: 0 if_True filter_all [OF that])
  qed
  have 2: "calculate_metrics results_df (coverage_key el) = None"
    if "list_all (\<lambda>r. r_checks r el = None) results_df"
    by (simp only: calculate_metrics_coverage [OF assms] in_results_none [OF that] if_False)
  have 3: "calculate_metrics results_df ''overall_score'' =
             Some (sum_list (map (\<lambda>e. case calculate_metrics results_df (coverage_key e) of
                                          Some v \<Rightarrow> v | None \<Rightarrow> 0) elements) / 5)"
    using calculate_metrics_overall [OF assms(1)] by (simp only: get_default_def)
  have 4: "elements = [''Title'', ''Meta Description'', ''H1'', ''H2s'', ''Content'']"
    by (rule elements_def)
  have 5: "calculate_metrics [] = Map.empty"
    by (simp add: calculate_metrics_def)
  show ?thesis
    using 1 2 by (intro conjI impI 0 3 4 coverage_keys 5) blast+
qed

theorem metrics_coverage_witness:
  "ex_results \<noteq> [] \<and> ''Title'' \<in> set elements
   \<and> calculate_metrics ex_results ''title_coverage'' = Some 100
   \<and> calculate_metrics ex_results ''content_coverage'' = Some 100
   \<and> calculate_metrics ex_results ''h1_coverage'' = Some 0
   \<and> calculate_metrics ex_results ''overall_score'' = Some 40
   \<and> calculate_metrics ex_results ''total_queries'' = Some 1
   \<and> calculate_metrics ex_mixed ''title_coverage'' = Some 100
   \<and> calculate_metrics ex_mixed ''overall_score'' = Some 40"
proof -
  have h1: "ex_results \<noteq> []" by (simp add: ex_results_def)
  have h2: "''Title'' \<in> set elements" by (simp add: elements_def)
  have k: "coverage_key ''Title'' = ''title_coverage''" by code_simp
  have a: "list_all (\<lambda>r. r_checks r ''Title'' \<noteq> None) ex_results" by (auto simp: ex_results_def)
  have f: "filter (\<lambda>r. r_checks r ''Title'' = Some True) ex_results = ex_results"
    by (simp add: ex_results_def)
  have l: "length ex_results = 1" by (simp add: ex_results_def)
  have "calculate_metrics ex_results (coverage_key ''Title'') =
      Some (of_nat (length (filter (\<lambda>r. r_checks r ''Title'' = Some True) ex_results))
              / of_nat (length ex_results) * 100)"
    using metrics_coverage [OF h1 h2] a by blast
  then have t: "calculate_metrics ex_results ''title_coverage'' = Some 100"
    by (simp add: k f l)
  have c: "calculate_metrics ex_results ''content_coverage'' = Some 100" by code_simp
  have h: "calculate_metrics ex_results ''h1_coverage'' = Some 0" by code_simp
  have o: "calculate_metrics ex_results ''overall_score'' = Some 40" by code_simp
  have q: "calculate_metrics ex_results ''total_queries'' = Some 1" by code_simp
  have m: "calculate_metrics ex_mixed ''title_coverage'' = Some 100" by code_simp
  have n: "calculate_metrics ex_mixed ''overall_score'' = Some 40" by code_simp
  show ?thesis by (intro conjI h1 h2 t c h o q m n)
qed

theorem metrics_empty_counterexample:
  "calculate_metrics [] ''overall_score'' = None
   \<and> calculate_metrics ex_mixed ''title_coverage'' = Some 100
   \<and> length ex_mixed = 2
   \<and> length (filter (\<lambda>r. r_checks r ''Title'' = Some True) ex_mixed) = 1"
proof -
  have 1: "calculate_metrics [] ''overall_score'' = None"
    by (simp add: calculate_metrics_def)
  have 2: "calculate_metrics ex_mixed ''title_coverage'' = Some 100" by code_simp
  have 3: "length ex_mixed = 2" by (simp add: ex_mixed_def)
  have 4: "length (filter (\<lambda>r. r_checks r ''Title'' = Some True) ex_mixed) = 1"
    by (simp add: ex_mixed_def)
  show ?thesis by (intro conjI 1 2 3 4)
qed

section \<open>Failed extractions\<close>











end
